theory Spec2Isabelle
  imports Main "HOL-Library.AList" "HOL-Library.Char_ord" "HOL-Library.List_Lexorder"
begin

section \<open>Values and errors\<close>

text \<open>
  The scalars that \<^verbatim>\<open>_convert_sql_value\<close> produces and that the cells of a table hold:
  Python's \<^verbatim>\<open>None\<close> (and pandas' missing value), an unbounded \<^verbatim>\<open>int\<close>, a \<^verbatim>\<open>float\<close> and a
  \<^verbatim>\<open>str\<close>. A float is kept as the decimal literal it was read from: its numeric value
  is the double nearest to that literal, and no arithmetic on it is embedded.
  A character is a code point below 256.
\<close>

datatype sqlval = VNull | VInt int | VFloat string | VStr string

datatype error =
    ValueError string
  | KeyError string
  | TypeError string
  | CsvError string
  | Unmodelled string

subsection \<open>String helpers of the Python runtime\<close>

definition is_space :: "char \<Rightarrow> bool" where
  \<comment> \<open>\<^verbatim>\<open>str.isspace\<close> and the regular expression class \<^verbatim>\<open>\s\<close> on code points below 256\<close>
  "is_space c = ((of_char c :: nat) \<in> {9, 10, 11, 12, 13, 28, 29, 30, 31, 32, 133, 160})"

definition is_digit :: "char \<Rightarrow> bool" where
  \<comment> \<open>the regular expression class \<^verbatim>\<open>\d\<close> on code points below 256\<close>
  "is_digit c = (c \<in> set ''0123456789'')"

definition digit_val :: "char \<Rightarrow> int" where
  "digit_val c = int (of_char c) - 48"

definition lower_ch :: "char \<Rightarrow> char" where
  \<comment> \<open>lower case of one code point below 256\<close>
  "lower_ch c =
     (case map_of (zip ''ABCDEFGHIJKLMNOPQRSTUVWXYZ'' ''abcdefghijklmnopqrstuvwxyz'') c of
        Some l \<Rightarrow> l
      | None \<Rightarrow>
          (let n = (of_char c :: nat) in
           if 192 \<le> n \<and> n \<le> 222 \<and> n \<noteq> 215 then char_of (n + 32) else c))"

definition lower :: "string \<Rightarrow> string" where
  "lower s = map lower_ch s"

definition upper_ch :: "char \<Rightarrow> char" where
  \<comment> \<open>upper case of an ASCII letter; the other code points never become N, U or L,
      which is all that the comparison with \<^verbatim>\<open>'NULL'\<close> looks at\<close>
  "upper_ch c =
     (case map_of (zip ''abcdefghijklmnopqrstuvwxyz'' ''ABCDEFGHIJKLMNOPQRSTUVWXYZ'') c of
        Some u \<Rightarrow> u
      | None \<Rightarrow> c)"

definition upper :: "string \<Rightarrow> string" where
  "upper s = map upper_ch s"

definition strip :: "string \<Rightarrow> string" where
  \<comment> \<open>\<^verbatim>\<open>s.strip()\<close>\<close>
  "strip s = rev (dropWhile is_space (rev (dropWhile is_space s)))"

definition strip_char :: "char \<Rightarrow> string \<Rightarrow> string" where
  \<comment> \<open>\<^verbatim>\<open>s.strip(ch)\<close> for a single character\<close>
  "strip_char ch s = rev (dropWhile (\<lambda>c. c = ch) (rev (dropWhile (\<lambda>c. c = ch) s)))"

fun split_on :: "char \<Rightarrow> string \<Rightarrow> string list" where
  \<comment> \<open>\<^verbatim>\<open>s.split(d)\<close>\<close>
  "split_on d [] = [[]]"
| "split_on d (c # cs) =
     (if c = d then [] # split_on d cs
      else (case split_on d cs of [] \<Rightarrow> [[c]] | x # xs \<Rightarrow> (c # x) # xs))"

definition int_of_digits :: "string \<Rightarrow> int" where
  "int_of_digits ds = foldl (\<lambda>a c. 10 * a + digit_val c) 0 ds"

section \<open>Value coercion\<close>

definition fullmatch_int :: "string \<Rightarrow> bool" where
  \<comment> \<open>\<^verbatim>\<open>re.fullmatch(r"-?\d+", token)\<close>\<close>
  "fullmatch_int t =
     (let ds = (case t of [] \<Rightarrow> [] | c # r \<Rightarrow> if c = CHR ''-'' then r else t)
      in ds \<noteq> [] \<and> list_all is_digit ds)"

definition fullmatch_float :: "string \<Rightarrow> bool" where
  \<comment> \<open>\<^verbatim>\<open>re.fullmatch(r"-?\d+\.\d+", token)\<close>\<close>
  "fullmatch_float t =
     (let ds = (case t of [] \<Rightarrow> [] | c # r \<Rightarrow> if c = CHR ''-'' then r else t);
          a = takeWhile is_digit ds;
          b = dropWhile is_digit ds
      in a \<noteq> [] \<and> (case b of [] \<Rightarrow> False
                     | d # f \<Rightarrow> d = CHR ''.'' \<and> f \<noteq> [] \<and> list_all is_digit f))"

definition int_max_str_digits :: nat where
  \<comment> \<open>the interpreter's default limit on the digits of a conversion between \<^verbatim>\<open>int\<close> and
      \<^verbatim>\<open>str\<close> (\<^verbatim>\<open>sys.get_int_max_str_digits()\<close>); the sign is not counted, leading zeros are\<close>
  "int_max_str_digits = 4300"

definition py_int_literal :: "string \<Rightarrow> error + int" where
  \<comment> \<open>\<^verbatim>\<open>int(token)\<close> on a token that matches \<^verbatim>\<open>-?\d+\<close>: ValueError beyond the limit\<close>
  "py_int_literal t =
     (case t of
        [] \<Rightarrow> Inr 0
      | c # r \<Rightarrow>
          if int_max_str_digits < length (if c = CHR ''-'' then r else t)
          then Inl (ValueError ''Exceeds the limit (4300 digits) for integer string conversion'')
          else Inr (if c = CHR ''-'' then - int_of_digits r else int_of_digits t))"

definition numeric_value :: "string \<Rightarrow> error + sqlval option" where
  \<comment> \<open>the body of the \<^verbatim>\<open>try\<close> statement: the number that it returns, if it returns one\<close>
  "numeric_value token =
     (if fullmatch_int token then
        (case py_int_literal token of
           Inl e \<Rightarrow> Inl e
         | Inr n \<Rightarrow> Inr (Some (VInt n)))
      else if fullmatch_float token then Inr (Some (VFloat token))
      else Inr None)"

definition convert_sql_value :: "string \<Rightarrow> sqlval" where
  \<comment> \<open>\<^verbatim>\<open>except Exception: pass\<close>: when the conversion raises, the token is left as a string\<close>
  "convert_sql_value token0 =
     (let token = strip token0 in
      if upper token = ''NULL'' \<or> token = [] then VNull
      else
        (case numeric_value token of
           Inl e \<Rightarrow> VStr token
         | Inr None \<Rightarrow> VStr token
         | Inr (Some v) \<Rightarrow> v))"

section \<open>The reader of the \<^verbatim>\<open>csv\<close> module\<close>

text \<open>
  \<^verbatim>\<open>csv.reader([tup], delimiter=',', quotechar="'", skipinitialspace=True)\<close> followed by
  \<^verbatim>\<open>next(reader)\<close>: the state machine of the interpreter's reader, with the dialect's
  defaults for everything else (quotes are doubled inside a quoted field, there is no
  escape character, the reader is not strict). The escape states cannot be reached.
  A character is \<^verbatim>\<open>Some c\<close>; the end of the line is \<^verbatim>\<open>None\<close>.
\<close>

datatype csv_state =
  START_RECORD | START_FIELD | IN_FIELD | IN_QUOTED_FIELD | QUOTE_IN_QUOTED_FIELD | EAT_CRNL

record reader =
  state :: csv_state
  rec_fields :: "string list"
  cur_field :: string

definition field_limit :: nat where
  "field_limit = 131072"

definition parse_save_field :: "reader \<Rightarrow> reader" where
  "parse_save_field r = r\<lparr>rec_fields := rec_fields r @ [cur_field r], cur_field := []\<rparr>"

definition parse_add_char :: "reader \<Rightarrow> char \<Rightarrow> error + reader" where
  "parse_add_char r c =
     (if field_limit \<le> length (cur_field r)
      then Inl (CsvError ''field larger than field limit (131072)'')
      else Inr (r\<lparr>cur_field := cur_field r @ [c]\<rparr>))"

definition is_newline :: "char \<Rightarrow> bool" where
  "is_newline c = (c = CHR 0x0A \<or> c = CHR 0x0D)"

definition start_field :: "reader \<Rightarrow> char option \<Rightarrow> error + reader" where
  "start_field r co =
     (case co of
        None \<Rightarrow> Inr ((parse_save_field r)\<lparr>state := START_RECORD\<rparr>)
      | Some c \<Rightarrow>
          if is_newline c then Inr ((parse_save_field r)\<lparr>state := EAT_CRNL\<rparr>)
          else if c = CHR 0x27 then Inr (r\<lparr>state := IN_QUOTED_FIELD\<rparr>)
          else if c = CHR '' '' then Inr (r\<lparr>state := START_FIELD\<rparr>)
          else if c = CHR '','' then Inr ((parse_save_field r)\<lparr>state := START_FIELD\<rparr>)
          else (case parse_add_char r c of
                  Inl e \<Rightarrow> Inl e
                | Inr r' \<Rightarrow> Inr (r'\<lparr>state := IN_FIELD\<rparr>)))"

fun parse_process_char :: "csv_state \<Rightarrow> reader \<Rightarrow> char option \<Rightarrow> error + reader" where
  "parse_process_char START_RECORD r co =
     (case co of
        None \<Rightarrow> Inr r
      | Some c \<Rightarrow>
          if is_newline c then Inr (r\<lparr>state := EAT_CRNL\<rparr>)
          else start_field r co)"
| "parse_process_char START_FIELD r co = start_field r co"
| "parse_process_char IN_FIELD r co =
     (case co of
        None \<Rightarrow> Inr ((parse_save_field r)\<lparr>state := START_RECORD\<rparr>)
      | Some c \<Rightarrow>
          if is_newline c then Inr ((parse_save_field r)\<lparr>state := EAT_CRNL\<rparr>)
          else if c = CHR '','' then Inr ((parse_save_field r)\<lparr>state := START_FIELD\<rparr>)
          else parse_add_char r c)"
| "parse_process_char IN_QUOTED_FIELD r co =
     (case co of
        None \<Rightarrow> Inr r
      | Some c \<Rightarrow>
          if c = CHR 0x27 then Inr (r\<lparr>state := QUOTE_IN_QUOTED_FIELD\<rparr>)
          else parse_add_char r c)"
| "parse_process_char QUOTE_IN_QUOTED_FIELD r co =
     (case co of
        None \<Rightarrow> Inr ((parse_save_field r)\<lparr>state := START_RECORD\<rparr>)
      | Some c \<Rightarrow>
          if c = CHR 0x27 then
            (case parse_add_char r c of
               Inl e \<Rightarrow> Inl e
             | Inr r' \<Rightarrow> Inr (r'\<lparr>state := IN_QUOTED_FIELD\<rparr>))
          else if c = CHR '','' then Inr ((parse_save_field r)\<lparr>state := START_FIELD\<rparr>)
          else if is_newline c then Inr ((parse_save_field r)\<lparr>state := EAT_CRNL\<rparr>)
          else (case parse_add_char r c of
                  Inl e \<Rightarrow> Inl e
                | Inr r' \<Rightarrow> Inr (r'\<lparr>state := IN_FIELD\<rparr>)))"
| "parse_process_char EAT_CRNL r co =
     (case co of
        None \<Rightarrow> Inr (r\<lparr>state := START_RECORD\<rparr>)
      | Some c \<Rightarrow>
          if is_newline c then Inr r
          else Inl (CsvError ''new-line character seen in unquoted field''))"

fun process_line :: "reader \<Rightarrow> string \<Rightarrow> error + reader" where
  "process_line r [] = Inr r"
| "process_line r (c # cs) =
     (case parse_process_char (state r) r (Some c) of
        Inl e \<Rightarrow> Inl e
      | Inr r' \<Rightarrow> process_line r' cs)"

definition csv_reader_next :: "string \<Rightarrow> error + string list" where
  \<comment> \<open>the one record read from the one line \<^verbatim>\<open>tup\<close>; when the line ends inside a
      quoted field the input is exhausted and the open field is saved\<close>
  "csv_reader_next tup =
     (case process_line \<lparr>state = START_RECORD, rec_fields = [], cur_field = []\<rparr> tup of
        Inl e \<Rightarrow> Inl e
      | Inr r \<Rightarrow>
          (case parse_process_char (state r) r None of
             Inl e \<Rightarrow> Inl e
           | Inr r' \<Rightarrow>
               if state r' = START_RECORD then Inr (rec_fields r')
               else Inr (rec_fields (parse_save_field r'))))"

section \<open>Statement extractor\<close>

text \<open>
  The pattern of \<^verbatim>\<open>_parse_insert_blocks\<close>,
  \<^verbatim>\<open>INSERT INTO `T`\s*\(([^)]+)\)\s*VALUES\s*(.*?);\<close> with the flags IGNORECASE and DOTALL.
  Every repetition of the pattern is followed by a character it cannot consume, so the
  match at a position is found without backtracking: the greedy repetitions take all
  they can and the lazy one stops at the first semicolon.
\<close>

fun eat_ci :: "string \<Rightarrow> string \<Rightarrow> string option" where
  \<comment> \<open>a literal of the pattern, matched case-insensitively; returns the rest of the text\<close>
  "eat_ci [] s = Some s"
| "eat_ci (p # ps) [] = None"
| "eat_ci (p # ps) (c # cs) = (if lower_ch p = lower_ch c then eat_ci ps cs else None)"

definition match_insert_at :: "string \<Rightarrow> string \<Rightarrow> (string \<times> string \<times> string) option" where
  \<comment> \<open>the match that starts at the head of the text: the two groups and the text after it\<close>
  "match_insert_at table s =
     (case eat_ci (''INSERT INTO '' @ [CHR 0x60] @ table @ [CHR 0x60]) s of
        None \<Rightarrow> None
      | Some s1 \<Rightarrow>
          (case dropWhile is_space s1 of
             [] \<Rightarrow> None
           | p # s2 \<Rightarrow>
               if p \<noteq> CHR ''('' then None
               else
                 (let cols_raw = takeWhile (\<lambda>c. c \<noteq> CHR '')'') s2 in
                  if cols_raw = [] then None
                  else
                    (case dropWhile (\<lambda>c. c \<noteq> CHR '')'') s2 of
                       [] \<Rightarrow> None
                     | q # s3 \<Rightarrow>
                         (case eat_ci ''VALUES'' (dropWhile is_space s3) of
                            None \<Rightarrow> None
                          | Some s4 \<Rightarrow>
                              (let s5 = dropWhile is_space s4 in
                               case dropWhile (\<lambda>c. c \<noteq> CHR '';'') s5 of
                                 [] \<Rightarrow> None
                               | t # rest \<Rightarrow>
                                   Some (cols_raw, takeWhile (\<lambda>c. c \<noteq> CHR '';'') s5, rest)))))))"

lemma eat_ci_length: "eat_ci p s = Some r \<Longrightarrow> length r \<le> length s"
  by (induction p s rule: eat_ci.induct) (auto split: if_splits)

lemma match_insert_at_shorter:
  assumes "match_insert_at table s = Some (a, b, r)"
  shows "length r < length s"
proof -
  from assms obtain s1 p s2 q s3 s4 t where
    e1: "eat_ci (''INSERT INTO '' @ [CHR 0x60] @ table @ [CHR 0x60]) s = Some s1" and
    d1: "dropWhile is_space s1 = p # s2" and
    d2: "dropWhile (\<lambda>c. c \<noteq> CHR '')'') s2 = q # s3" and
    e2: "eat_ci ''VALUES'' (dropWhile is_space s3) = Some s4" and
    d3: "dropWhile (\<lambda>c. c \<noteq> CHR '';'') (dropWhile is_space s4) = t # r"
    by (auto simp: match_insert_at_def Let_def split: option.splits list.splits if_splits)
  have "length r < length (dropWhile is_space s4)"
    using length_dropWhile_le [of "\<lambda>c. c \<noteq> CHR '';''" "dropWhile is_space s4"] d3 by simp
  also have "\<dots> \<le> length s4" by (rule length_dropWhile_le)
  also have "\<dots> \<le> length (dropWhile is_space s3)" using e2 by (rule eat_ci_length)
  also have "\<dots> \<le> length s3" by (rule length_dropWhile_le)
  also have "\<dots> \<le> length s2"
    using length_dropWhile_le [of "\<lambda>c. c \<noteq> CHR '')''" s2] d2 by simp
  also have "\<dots> \<le> length s1"
    using length_dropWhile_le [of is_space s1] d1 by simp
  also have "\<dots> \<le> length s" using e1 by (rule eat_ci_length)
  finally show ?thesis .
qed

function find_inserts :: "string \<Rightarrow> string \<Rightarrow> (string \<times> string) list" where
  \<comment> \<open>\<^verbatim>\<open>pattern.finditer(sql_text)\<close>: the matches from left to right, without overlap\<close>
  "find_inserts table [] = []"
| "find_inserts table (c # s) =
     (case match_insert_at table (c # s) of
        None \<Rightarrow> find_inserts table s
      | Some (cols_raw, values_raw, rest) \<Rightarrow> (cols_raw, values_raw) # find_inserts table rest)"
  by pat_completeness auto
termination
  by (relation "measure (\<lambda>(table, s). length s)")
     (auto dest: match_insert_at_shorter)

function find_tuples :: "string \<Rightarrow> string list" where
  \<comment> \<open>\<^verbatim>\<open>re.findall(r"\(([^)]*)\)", values_raw, re.DOTALL)\<close>\<close>
  "find_tuples [] = []"
| "find_tuples (c # s) =
     (if c = CHR ''('' then
        (case dropWhile (\<lambda>c. c \<noteq> CHR '')'') s of
           [] \<Rightarrow> find_tuples s
         | q # rest \<Rightarrow> takeWhile (\<lambda>c. c \<noteq> CHR '')'') s # find_tuples rest)
      else find_tuples s)"
  by pat_completeness auto
termination
proof (relation "measure length", goal_cases)
  case 1
  show ?case by simp
next
  case (2 c s)
  show ?case by simp
next
  case (3 c s q rest)
  have "length (dropWhile (\<lambda>c. c \<noteq> CHR '')'') s) \<le> length s"
    by (rule length_dropWhile_le)
  with 3 show ?case by simp
next
  case (4 c s)
  show ?case by simp
qed

type_synonym pydict = "(string \<times> sqlval) list"

definition dict_zip :: "string list \<Rightarrow> sqlval list \<Rightarrow> pydict" where
  \<comment> \<open>\<^verbatim>\<open>dict(zip(cols, parsed))\<close>: a key keeps its first position and its last value\<close>
  "dict_zip cols parsed = foldl (\<lambda>d (k, v). AList.update k v d) [] (zip cols parsed)"

definition pad_or_truncate :: "nat \<Rightarrow> sqlval list \<Rightarrow> sqlval list" where
  "pad_or_truncate n parsed =
     (if length parsed \<noteq> n then
        (if length parsed < n then parsed @ replicate (n - length parsed) VNull
         else take n parsed)
      else parsed)"

definition parse_tuple :: "string list \<Rightarrow> string \<Rightarrow> error + pydict" where
  \<comment> \<open>the body of the loop over the tuples of one statement\<close>
  "parse_tuple cols tup =
     (case csv_reader_next tup of
        Inl e \<Rightarrow> Inl e
      | Inr toks \<Rightarrow>
          Inr (dict_zip cols (pad_or_truncate (length cols) (map convert_sql_value toks))))"

fun parse_tuples :: "string list \<Rightarrow> string list \<Rightarrow> error + pydict list" where
  "parse_tuples cols [] = Inr []"
| "parse_tuples cols (tup # tups) =
     (case parse_tuple cols tup of
        Inl e \<Rightarrow> Inl e
      | Inr row \<Rightarrow>
          (case parse_tuples cols tups of
             Inl e \<Rightarrow> Inl e
           | Inr rows \<Rightarrow> Inr (row # rows)))"

definition parse_cols :: "string \<Rightarrow> string list" where
  \<comment> \<open>\<^verbatim>\<open>[c.strip().strip('`') for c in cols_raw.split(',')]\<close>\<close>
  "parse_cols cols_raw = map (\<lambda>c. strip_char (CHR 0x60) (strip c)) (split_on (CHR '','') cols_raw)"

fun parse_blocks :: "(string \<times> string) list \<Rightarrow> error + pydict list" where
  "parse_blocks [] = Inr []"
| "parse_blocks ((cols_raw, values_raw) # ms) =
     (case parse_tuples (parse_cols cols_raw) (find_tuples values_raw) of
        Inl e \<Rightarrow> Inl e
      | Inr rows \<Rightarrow>
          (case parse_blocks ms of
             Inl e \<Rightarrow> Inl e
           | Inr others \<Rightarrow> Inr (rows @ others)))"

definition parse_insert_blocks :: "string \<Rightarrow> string \<Rightarrow> error + pydict list" where
  "parse_insert_blocks sql_text table = parse_blocks (find_inserts table sql_text)"

section \<open>Mutation path: the statement formatter\<close>

definition col_order :: "string list" where
  "col_order = [''uniqueid'', ''polling_unit_id'', ''ward_id'', ''lga_id'', ''uniquewardid'',
     ''polling_unit_number'', ''polling_unit_name'', ''polling_unit_description'',
     ''lat'', ''long'', ''entered_by_user'', ''date_entered'', ''user_ip_address'']"

fun str_of_nat :: "nat \<Rightarrow> string" where
  "str_of_nat n =
     (if n < 10 then [''0123456789'' ! n]
      else str_of_nat (n div 10) @ [''0123456789'' ! (n mod 10)])"

declare str_of_nat.simps [simp del]

definition str_of_int :: "int \<Rightarrow> string" where
  \<comment> \<open>\<^verbatim>\<open>str(n)\<close> for an \<^verbatim>\<open>int\<close>\<close>
  "str_of_int i = (if i < 0 then CHR ''-'' # str_of_nat (nat (- i)) else str_of_nat (nat i))"

fun replace_quote :: "string \<Rightarrow> string" where
  \<comment> \<open>\<^verbatim>\<open>s.replace("'", "\\'")\<close>\<close>
  "replace_quote [] = []"
| "replace_quote (c # cs) =
     (if c = CHR 0x27 then CHR 0x5C # CHR 0x27 # replace_quote cs else c # replace_quote cs)"

definition format_val :: "sqlval \<Rightarrow> error + string" where
  \<comment> \<open>\<^verbatim>\<open>_format_val\<close>; \<^verbatim>\<open>str\<close> of an integer raises beyond the digit limit; the integer
      part of a float is not embedded\<close>
  "format_val v =
     (case v of
        VNull \<Rightarrow> Inr ''NULL''
      | VInt n \<Rightarrow>
          if int_max_str_digits < length (str_of_nat (nat \<bar>n\<bar>))
          then Inl (ValueError ''Exceeds the limit (4300 digits) for integer string conversion'')
          else Inr (str_of_int n)
      | VFloat f \<Rightarrow> Inl (Unmodelled ''int of a float'')
      | VStr s \<Rightarrow> Inr ([CHR 0x27] @ replace_quote s @ [CHR 0x27]))"

fun join :: "string \<Rightarrow> string list \<Rightarrow> string" where
  \<comment> \<open>\<^verbatim>\<open>sep.join(xs)\<close>\<close>
  "join sep [] = []"
| "join sep [x] = x"
| "join sep (x # y # ys) = x @ sep @ join sep (y # ys)"

fun format_vals :: "sqlval list \<Rightarrow> error + string list" where
  "format_vals [] = Inr []"
| "format_vals (v # vs) =
     (case format_val v of
        Inl e \<Rightarrow> Inl e
      | Inr s \<Rightarrow> (case format_vals vs of Inl e \<Rightarrow> Inl e | Inr ss \<Rightarrow> Inr (s # ss)))"

definition dict_get :: "pydict \<Rightarrow> string \<Rightarrow> sqlval" where
  \<comment> \<open>\<^verbatim>\<open>d.get(k)\<close>\<close>
  "dict_get d k = (case map_of d k of None \<Rightarrow> VNull | Some v \<Rightarrow> v)"

definition insert_stmt :: "pydict \<Rightarrow> error + string" where
  \<comment> \<open>the statement text that \<^verbatim>\<open>append_polling_unit_to_sql\<close> builds\<close>
  "insert_stmt pu_row =
     (case format_vals (map (dict_get pu_row) col_order) of
        Inl e \<Rightarrow> Inl e
      | Inr vals \<Rightarrow>
          Inr (''INSERT INTO '' @ [CHR 0x60] @ ''polling_unit'' @ [CHR 0x60] @ '' ('' @ [CHR 0x60]
               @ join ([CHR 0x60] @ '','' @ [CHR 0x60]) col_order
               @ [CHR 0x60] @ '') VALUES ('' @ join '', '' vals @ '');'' @ [CHR 0x0A]))"

definition append_polling_unit_to_sql :: "string \<Rightarrow> pydict \<Rightarrow> error + (string \<times> string)" where
  \<comment> \<open>the file is its text; the result is the new text of the file and the statement\<close>
  "append_polling_unit_to_sql sql_file pu_row =
     (case insert_stmt pu_row of
        Inl e \<Rightarrow> Inl e
      | Inr stmt \<Rightarrow> Inr (sql_file @ stmt, stmt))"

section \<open>Sample dumps\<close>

definition sample_dump :: string where
  \<comment> \<open>two polling units; the tally has two rows for unit 7 and party APC, one for PDP\<close>
  "sample_dump =
     ''INSERT INTO `polling_unit` (`uniqueid`) VALUES (7),(8);''
     @ ''INSERT INTO `announced_pu_results` (`polling_unit_uniqueid`,`party_abbreviation`,`party_score`) VALUES ''
     @ ''(7,'' @ [CHR 0x27] @ ''APC'' @ [CHR 0x27] @ '',120),''
     @ ''(7,'' @ [CHR 0x27] @ ''APC'' @ [CHR 0x27] @ '',30),''
     @ ''(7,'' @ [CHR 0x27] @ ''PDP'' @ [CHR 0x27] @ '',4);''"

definition negative_dump :: string where
  \<comment> \<open>one polling unit and one tally row, with a negative score\<close>
  "negative_dump =
     ''INSERT INTO `polling_unit` (`uniqueid`) VALUES (7);''
     @ ''INSERT INTO `announced_pu_results` (`polling_unit_uniqueid`,`party_abbreviation`,`party_score`) VALUES ''
     @ ''(7,'' @ [CHR 0x27] @ ''PDP'' @ [CHR 0x27] @ '',-5);''"


section \<open>Tables\<close>

text \<open>
  A table of the table library: its column labels and its rows. A row gives the cell of
  every label; the cell of a label that is not a column is never read. \<^verbatim>\<open>None\<close> and
  the library's missing value are both \<^term>\<open>VNull\<close>.

  The library stores a column of integers as 64-bit integers, or as doubles once a cell
  of it is missing, and it treats a column that holds a string differently from a numeric
  one. The embedding follows the library on columns of integers below \<open>2^53\<close> in
  magnitude and on columns of strings; where the library's behaviour depends on anything
  else (floats, mixed columns, clashing column labels, larger integers), the operation
  returns \<^verbatim>\<open>Unmodelled\<close>, which no theorem below takes for a result of the program.
\<close>

record frame =
  fcolumns :: "string list"
  frows :: "(string \<Rightarrow> sqlval) list"

definition and_then :: "error + 'a \<Rightarrow> ('a \<Rightarrow> error + 'b) \<Rightarrow> error + 'b" where
  \<comment> \<open>sequencing: an exception of the first step is the exception of the whole\<close>
  "and_then m f = (case m of Inl e \<Rightarrow> Inl e | Inr x \<Rightarrow> f x)"

fun map_err :: "('a \<Rightarrow> error + 'b) \<Rightarrow> 'a list \<Rightarrow> error + 'b list" where
  \<comment> \<open>a loop or comprehension whose body may raise: the first exception ends it\<close>
  "map_err f [] = Inr []"
| "map_err f (x # xs) =
     (case f x of
        Inl e \<Rightarrow> Inl e
      | Inr y \<Rightarrow> (case map_err f xs of Inl e \<Rightarrow> Inl e | Inr ys \<Rightarrow> Inr (y # ys)))"

definition first_seen :: "'a list \<Rightarrow> 'a list" where
  \<comment> \<open>the distinct elements, in the order of their first occurrence\<close>
  "first_seen xs = rev (remdups (rev xs))"

definition empty_frame :: frame where
  \<comment> \<open>\<^verbatim>\<open>pd.DataFrame()\<close>\<close>
  "empty_frame = \<lparr>fcolumns = [], frows = []\<rparr>"

definition DataFrame :: "pydict list \<Rightarrow> frame" where
  \<comment> \<open>\<^verbatim>\<open>pd.DataFrame(rows)\<close> of a list of dicts: a key that a dict lacks is a missing cell\<close>
  "DataFrame dicts =
     \<lparr>fcolumns = first_seen (concat (map (map fst) dicts)), frows = map dict_get dicts\<rparr>"

definition is_empty :: "frame \<Rightarrow> bool" where
  \<comment> \<open>\<^verbatim>\<open>df.empty\<close>\<close>
  "is_empty f = (fcolumns f = [] \<or> frows f = [])"

definition has_col :: "frame \<Rightarrow> string \<Rightarrow> bool" where
  \<comment> \<open>\<^verbatim>\<open>c in df.columns\<close>\<close>
  "has_col f c = (c \<in> set (fcolumns f))"

definition column :: "frame \<Rightarrow> string \<Rightarrow> sqlval list" where
  "column f c = map (\<lambda>r. r c) (frows f)"

fun is_int :: "sqlval \<Rightarrow> bool" where
  "is_int (VInt n) = True"
| "is_int v = False"

fun is_str :: "sqlval \<Rightarrow> bool" where
  "is_str (VStr s) = True"
| "is_str v = False"

fun int_val :: "sqlval \<Rightarrow> int" where
  "int_val (VInt n) = n"
| "int_val v = 0"

fun str_val :: "sqlval \<Rightarrow> string" where
  "str_val (VStr s) = s"
| "str_val v = []"

definition exact_int :: "sqlval \<Rightarrow> bool" where
  \<comment> \<open>null, or an integer that a 64-bit integer and a double both hold exactly\<close>
  "exact_int v =
     (case v of
        VNull \<Rightarrow> True
      | VInt n \<Rightarrow> - 9007199254740992 < n \<and> n < 9007199254740992
      | VFloat f \<Rightarrow> False
      | VStr s \<Rightarrow> False)"

definition int_column :: "sqlval list \<Rightarrow> bool" where
  \<comment> \<open>a column that the library stores as numbers: integers, at least one, and nulls\<close>
  "int_column vs = (list_all exact_int vs \<and> list_ex is_int vs)"

subsection \<open>Conversion to \<^verbatim>\<open>int\<close>\<close>

fun valid_digits :: "string \<Rightarrow> bool" where
  \<comment> \<open>digits, with single underscores between them\<close>
  "valid_digits [] = False"
| "valid_digits [c] = is_digit c"
| "valid_digits (c # d # r) =
     (is_digit c \<and>
      (if d = CHR ''_'' then r \<noteq> [] \<and> valid_digits r else valid_digits (d # r)))"

definition py_int_str :: "string \<Rightarrow> error + int" where
  \<comment> \<open>\<^verbatim>\<open>int(s)\<close> for a \<^verbatim>\<open>str\<close>: ValueError for a text that is no integer literal, and
      for one beyond the digit limit\<close>
  "py_int_str s0 =
     (let s = strip s0;
          neg = (case s of [] \<Rightarrow> False | c # r \<Rightarrow> c = CHR ''-'');
          body = (case s of [] \<Rightarrow> [] | c # r \<Rightarrow> if c = CHR ''-'' \<or> c = CHR ''+'' then r else s)
      in if \<not> valid_digits body
         then Inl (ValueError ''invalid literal for int() with base 10'')
         else if int_max_str_digits < length (filter is_digit body)
         then Inl (ValueError ''Exceeds the limit (4300 digits) for integer string conversion'')
         else Inr ((if neg then - 1 else 1) * int_of_digits (filter is_digit body)))"

definition py_int :: "sqlval \<Rightarrow> error + int" where
  \<comment> \<open>\<^verbatim>\<open>int(v)\<close>; a null read from a numeric column is the missing value, of which
      \<^verbatim>\<open>int\<close> raises ValueError (of \<^verbatim>\<open>None\<close> it raises TypeError)\<close>
  "py_int v =
     (case v of
        VNull \<Rightarrow> Inl (ValueError ''cannot convert float NaN to integer'')
      | VInt n \<Rightarrow> Inr n
      | VFloat f \<Rightarrow> Inl (Unmodelled ''int of a float'')
      | VStr s \<Rightarrow> py_int_str s)"

subsection \<open>Operations of the table library\<close>

definition select_cols :: "string list \<Rightarrow> frame \<Rightarrow> error + frame" where
  \<comment> \<open>\<^verbatim>\<open>df[[c1, c2, ...]]\<close>\<close>
  "select_cols cs f =
     (case filter (\<lambda>c. \<not> has_col f c) cs of
        [] \<Rightarrow> Inr (f\<lparr>fcolumns := cs\<rparr>)
      | c # more_cs \<Rightarrow> Inl (KeyError c))"

definition set_col :: "string \<Rightarrow> ((string \<Rightarrow> sqlval) \<Rightarrow> sqlval) \<Rightarrow> frame \<Rightarrow> frame" where
  \<comment> \<open>\<^verbatim>\<open>df[c] = ...\<close>: a new column goes last\<close>
  "set_col c g f =
     \<lparr>fcolumns = (if has_col f c then fcolumns f else fcolumns f @ [c]),
      frows = map (\<lambda>r. r(c := g r)) (frows f)\<rparr>"

definition rename_col :: "string \<Rightarrow> string \<Rightarrow> frame \<Rightarrow> error + frame" where
  \<comment> \<open>\<^verbatim>\<open>df.rename(columns={old: new})\<close>\<close>
  "rename_col old new f =
     (if \<not> has_col f old \<or> old = new then Inr f
      else if has_col f new then Inl (Unmodelled ''two columns with one label'')
      else Inr \<lparr>fcolumns = map (\<lambda>c. if c = old then new else c) (fcolumns f),
                frows = map (\<lambda>r. r(new := r old)) (frows f)\<rparr>)"

definition merge_left :: "frame \<Rightarrow> frame \<Rightarrow> string \<Rightarrow> error + frame" where
  \<comment> \<open>\<^verbatim>\<open>left.merge(right, on=key, how='left')\<close>: every left row, once for each right row
      with its key (null keys match each other), with missing cells when there is none\<close>
  "merge_left l r key =
     (if \<not> has_col l key \<or> \<not> has_col r key then Inl (KeyError key)
      else
        (let rcols = filter (\<lambda>c. c \<noteq> key) (fcolumns r) in
         if list_ex (\<lambda>c. has_col l c) rcols \<or> \<not> distinct (fcolumns l) \<or> \<not> distinct (fcolumns r)
         then Inl (Unmodelled ''two columns with one label'')
         else if \<not> int_column (column l key) \<or> \<not> int_column (column r key)
         then Inl (Unmodelled ''key column that is not a column of integers'')
         else Inr
           \<lparr>fcolumns = fcolumns l @ rcols,
            frows = concat (map (\<lambda>lr.
               (case filter (\<lambda>rr. rr key = lr key) (frows r) of
                  [] \<Rightarrow> [\<lambda>c. if c \<in> set rcols then VNull else lr c]
                | m # ms \<Rightarrow> map (\<lambda>rr. (\<lambda>c. if c \<in> set rcols then rr c else lr c)) (m # ms)))
               (frows l))\<rparr>))"

fun dedup_by :: "('a \<Rightarrow> 'b) \<Rightarrow> 'b list \<Rightarrow> 'a list \<Rightarrow> 'a list" where
  "dedup_by k seen [] = []"
| "dedup_by k seen (x # xs) =
     (if k x \<in> set seen then dedup_by k seen xs else x # dedup_by k (k x # seen) xs)"

definition drop_duplicates :: "frame \<Rightarrow> frame" where
  \<comment> \<open>\<^verbatim>\<open>df.drop_duplicates()\<close>: the first of the rows that agree on every column\<close>
  "drop_duplicates f = f\<lparr>frows := dedup_by (\<lambda>r. map r (fcolumns f)) [] (frows f)\<rparr>"

definition dropna :: "string \<Rightarrow> frame \<Rightarrow> frame" where
  \<comment> \<open>\<^verbatim>\<open>df.dropna(subset=[c])\<close>\<close>
  "dropna c f = f\<lparr>frows := filter (\<lambda>r. r c \<noteq> VNull) (frows f)\<rparr>"

definition astype_int :: "string \<Rightarrow> frame \<Rightarrow> error + frame" where
  \<comment> \<open>\<^verbatim>\<open>df[c] = df[c].astype(int)\<close>\<close>
  "astype_int c f =
     and_then (map_err (\<lambda>r. and_then (py_int (r c)) (\<lambda>n. Inr (r(c := VInt n)))) (frows f))
       (\<lambda>rs. Inr (f\<lparr>frows := rs\<rparr>))"

definition fillna0_astype_int :: "string \<Rightarrow> frame \<Rightarrow> error + frame" where
  \<comment> \<open>\<^verbatim>\<open>df[c] = df[c].fillna(0).astype(int)\<close>\<close>
  "fillna0_astype_int c f =
     and_then
       (map_err (\<lambda>r. if r c = VNull then Inr (r(c := VInt 0))
                      else and_then (py_int (r c)) (\<lambda>n. Inr (r(c := VInt n)))) (frows f))
       (\<lambda>rs. Inr (f\<lparr>frows := rs\<rparr>))"

fun fillna0_astype_int_cols :: "string list \<Rightarrow> frame \<Rightarrow> error + frame" where
  \<comment> \<open>the loop \<^verbatim>\<open>for c in party_columns\<close>\<close>
  "fillna0_astype_int_cols [] f = Inr f"
| "fillna0_astype_int_cols (c # cs) f =
     and_then (fillna0_astype_int c f) (fillna0_astype_int_cols cs)"

definition sort_values :: "string \<Rightarrow> frame \<Rightarrow> error + frame" where
  \<comment> \<open>\<^verbatim>\<open>df.sort_values(c)\<close> on a column of strings: ascending by code points, the
      missing values last. The library's default sort leaves the order of rows with
      equal keys open; they are kept in their order here.\<close>
  "sort_values c f =
     (if list_all (\<lambda>v. is_str v \<or> v = VNull) (column f c)
      then Inr (f\<lparr>frows := sort_key (\<lambda>r. str_val (r c)) (filter (\<lambda>r. r c \<noteq> VNull) (frows f))
                            @ filter (\<lambda>r. r c = VNull) (frows f)\<rparr>)
      else Inl (Unmodelled ''sort of a column that holds numbers''))"

section \<open>Table loader\<close>

fun load_tables_from_sql :: "string \<Rightarrow> string list \<Rightarrow> error + (string \<times> frame) list" where
  \<comment> \<open>the file is its text\<close>
  "load_tables_from_sql sql_text [] = Inr []"
| "load_tables_from_sql sql_text (table # tables) =
     and_then (parse_insert_blocks sql_text table) (\<lambda>dicts.
       and_then (load_tables_from_sql sql_text tables) (\<lambda>result.
         Inr ((table, if dicts = [] then empty_frame else DataFrame dicts) # result)))"

definition table_get :: "(string \<times> frame) list \<Rightarrow> string \<Rightarrow> frame" where
  \<comment> \<open>\<^verbatim>\<open>tables[name]\<close> and \<^verbatim>\<open>tables.get(name, pd.DataFrame())\<close> of a requested table\<close>
  "table_get tables name = (case map_of tables name of None \<Rightarrow> empty_frame | Some f \<Rightarrow> f)"

section \<open>Hierarchy resolver\<close>

type_synonym state_mapping = "(int \<times> sqlval) list"

definition dict_of_pairs :: "(int \<times> sqlval) list \<Rightarrow> state_mapping" where
  \<comment> \<open>a dict comprehension: a later pair with the same key replaces the value\<close>
  "dict_of_pairs kvs = foldl (\<lambda>d (k, v). AList.update k v d) [] kvs"

definition mapping_of_rows :: "string \<Rightarrow> string \<Rightarrow> frame \<Rightarrow> error + state_mapping" where
  \<comment> \<open>\<^verbatim>\<open>{int(r[id_col]): r[name_col] for _, r in df.iterrows()}\<close>\<close>
  "mapping_of_rows id_col name_col f =
     and_then (map_err (\<lambda>r. and_then (py_int (r id_col)) (\<lambda>k. Inr (k, r name_col))) (frows f))
       (\<lambda>kvs. Inr (dict_of_pairs kvs))"

fun contains :: "string \<Rightarrow> string \<Rightarrow> bool" where
  \<comment> \<open>\<^verbatim>\<open>sub in s\<close>\<close>
  "contains sub [] = (sub = [])"
| "contains sub (c # cs) = (take (length sub) (c # cs) = sub \<or> contains sub cs)"

definition last_col :: "string \<Rightarrow> string list \<Rightarrow> string option" where
  \<comment> \<open>the loop over the columns keeps the last one whose lower-cased label contains \<^verbatim>\<open>sub\<close>\<close>
  "last_col sub cs =
     (case filter (\<lambda>c. contains sub (lower c)) cs of [] \<Rightarrow> None | x # xs \<Rightarrow> Some (last (x # xs)))"

definition fallback_mapping :: "sqlval list \<Rightarrow> error + state_mapping" where
  \<comment> \<open>\<^verbatim>\<open>for sid in sorted(lga['state_id'].dropna().unique()): mapping[int(sid)] = f"State {int(sid)}"\<close>\<close>
  "fallback_mapping vs =
     (let xs = filter (\<lambda>v. v \<noteq> VNull) vs in
      if list_all exact_int xs
      then Inr (map (\<lambda>n. (n, VStr (''State '' @ str_of_int n))) (sort (remdups (map int_val xs))))
      else Inl (Unmodelled ''state_id values that are not integers''))"

definition load_state_mapping ::
  "string \<Rightarrow> frame option \<Rightarrow> (sqlval \<times> sqlval) list option \<Rightarrow> error + state_mapping" where
  \<comment> \<open>\<^verbatim>\<open>_load_state_mapping(sql_path, mapping_csv, mapping_dict)\<close>; \<^verbatim>\<open>mapping_csv\<close> is
      the table that \<^verbatim>\<open>pd.read_csv\<close> reads from the path\<close>
  "load_state_mapping sql_text mapping_csv mapping_dict =
     (case (case mapping_dict of None \<Rightarrow> [] | Some d \<Rightarrow> d) of
        kv # kvs \<Rightarrow>
          and_then (map_err (\<lambda>(k, v). and_then (py_int k) (\<lambda>n. Inr (n, v))) (kv # kvs))
            (\<lambda>pairs. Inr (dict_of_pairs pairs))
      | [] \<Rightarrow>
          (case (case mapping_csv of
                   None \<Rightarrow> None
                 | Some df \<Rightarrow> if has_col df ''state_id'' \<and> has_col df ''state_name''
                              then Some df else None) of
             Some df \<Rightarrow> mapping_of_rows ''state_id'' ''state_name'' df
           | None \<Rightarrow>
               and_then (load_tables_from_sql sql_text [''state'']) (\<lambda>tables.
                 (let state_table = table_get tables ''state'' in
                  case (if is_empty state_table then None
                        else (case last_col ''id'' (fcolumns state_table) of
                                None \<Rightarrow> None
                              | Some id_col \<Rightarrow>
                                  (case last_col ''name'' (fcolumns state_table) of
                                     None \<Rightarrow> None
                                   | Some name_col \<Rightarrow> Some (id_col, name_col)))) of
                    Some (id_col, name_col) \<Rightarrow> mapping_of_rows id_col name_col state_table
                  | None \<Rightarrow>
                      and_then (load_tables_from_sql sql_text [''lga'']) (\<lambda>tables2.
                        (let lga = table_get tables2 ''lga'' in
                         and_then
                           (if \<not> is_empty lga \<and> has_col lga ''state_id''
                            then fallback_mapping (column lga ''state_id'') else Inr [])
                           (\<lambda>mapping. Inr (AList.update 25 (VStr ''Delta State'') mapping))))))))"

section \<open>Result assembler\<close>

definition known :: "string list" where
  "known = [''polling_unit_uniqueid'', ''polling_unit_name'', ''polling_unit_number'',
     ''ward_id'', ''lga_id'', ''ward_name'', ''lga_name'', ''state_id'', ''state_name'']"

definition coerce_ids :: "frame \<Rightarrow> error + frame" where
  \<comment> \<open>\<^verbatim>\<open>announced[id] = announced[id].apply(lambda v: int(v) if v is not None else None)\<close>;
      in a numeric column a null is the missing value, not \<^verbatim>\<open>None\<close>\<close>
  "coerce_ids f =
     (if \<not> has_col f ''polling_unit_uniqueid'' then Inl (KeyError ''polling_unit_uniqueid'')
      else
        (let vs = column f ''polling_unit_uniqueid'';
             is_none = (\<lambda>v. v = VNull \<and> (list_ex is_str vs \<or> list_all (\<lambda>w. w = VNull) vs))
         in and_then
              (map_err (\<lambda>r. if is_none (r ''polling_unit_uniqueid'') then Inr r
                             else and_then (py_int (r ''polling_unit_uniqueid''))
                                    (\<lambda>n. Inr (r(''polling_unit_uniqueid'' := VInt n))))
                 (frows f))
              (\<lambda>rs. Inr (f\<lparr>frows := rs\<rparr>))))"

definition group_sum :: "(string \<Rightarrow> sqlval) list \<Rightarrow> int \<Rightarrow> string \<Rightarrow> int" where
  \<comment> \<open>the sum of the scores of the rows of one polling unit and one party; a missing
      score adds nothing\<close>
  "group_sum rs i p =
     sum_list (map (\<lambda>r. int_val (r ''party_score''))
       (filter (\<lambda>r. r ''polling_unit_uniqueid'' = VInt i \<and> r ''party_abbreviation'' = VStr p) rs))"

definition pivot_table :: "frame \<Rightarrow> error + frame" where
  \<comment> \<open>\<^verbatim>\<open>pivot_table(index=id, columns=party, values=score, aggfunc='sum', fill_value=0)
      .reset_index()\<close>: rows whose identifier or party is null are left out; one row for
      each identifier and one column for each party, both in ascending order\<close>
  "pivot_table f =
     (case filter (\<lambda>c. \<not> has_col f c)
             [''party_score'', ''polling_unit_uniqueid'', ''party_abbreviation''] of
        c # cs \<Rightarrow> Inl (KeyError c)
      | [] \<Rightarrow>
          (let rs = filter (\<lambda>r. r ''polling_unit_uniqueid'' \<noteq> VNull
                               \<and> r ''party_abbreviation'' \<noteq> VNull) (frows f);
               ids = sort (remdups (map (\<lambda>r. int_val (r ''polling_unit_uniqueid'')) rs));
               parties = sort (remdups (map (\<lambda>r. str_val (r ''party_abbreviation'')) rs))
           in if rs = []
                 \<or> \<not> int_column (column f ''party_score'')
                 \<or> \<not> sum_list (map (\<lambda>r. \<bar>int_val (r ''party_score'')\<bar>) (frows f)) < 9007199254740992
                 \<or> \<not> list_all (\<lambda>r. is_int (r ''polling_unit_uniqueid'')
                                    \<and> exact_int (r ''polling_unit_uniqueid'')) rs
                 \<or> \<not> list_all (\<lambda>r. is_str (r ''party_abbreviation'')) rs
              then Inl (Unmodelled ''tally that is not of integers and strings'')
              else if ''polling_unit_uniqueid'' \<in> set parties
              then Inl (ValueError ''cannot insert polling_unit_uniqueid, already exists'')
              else Inr
                \<lparr>fcolumns = ''polling_unit_uniqueid'' # parties,
                 frows = map (\<lambda>i. (\<lambda>c. if c = ''polling_unit_uniqueid'' then VInt i
                                        else if c \<in> set parties then VInt (group_sum rs i c)
                                        else VNull)) ids\<rparr>))"

definition map_state :: "state_mapping \<Rightarrow> sqlval \<Rightarrow> sqlval" where
  \<comment> \<open>one cell of \<^verbatim>\<open>merged['state_id'].map(state_mapping)\<close>\<close>
  "map_state sm v =
     (case v of
        VInt n \<Rightarrow> (case map_of sm n of None \<Rightarrow> VNull | Some name \<Rightarrow> name)
      | _ \<Rightarrow> VNull)"

definition pivot_and_merge :: "frame \<Rightarrow> frame \<Rightarrow> error + frame \<times> frame" where
  \<comment> \<open>the identifier coercion, the pivot, the rename of \<^verbatim>\<open>uniqueid\<close> and the left join
      of the polling units with the pivot; returns the pivot and the merged table\<close>
  "pivot_and_merge pu announced =
     and_then (coerce_ids announced) (\<lambda>announced1.
     and_then (pivot_table announced1) (\<lambda>party_pivot.
     and_then (if list_ex (\<lambda>c. c \<in> set known) (tl (fcolumns party_pivot))
               then Inl (Unmodelled ''party labelled as a hierarchy column'')
               else rename_col ''uniqueid'' ''polling_unit_uniqueid'' pu) (\<lambda>pu1.
     and_then (merge_left pu1 party_pivot ''polling_unit_uniqueid'') (\<lambda>merged.
       Inr (party_pivot, merged)))))"

definition merge_ward :: "frame \<Rightarrow> frame \<Rightarrow> error + frame" where
  "merge_ward ward merged =
     (if \<not> is_empty ward \<and> has_col ward ''ward_id'' \<and> has_col ward ''ward_name''
      then and_then (select_cols [''ward_id'', ''ward_name''] ward)
             (\<lambda>w. merge_left merged w ''ward_id'')
      else Inr merged)"

definition merge_lga :: "frame \<Rightarrow> frame \<Rightarrow> error + frame" where
  "merge_lga lga merged =
     (if \<not> is_empty lga \<and> has_col lga ''lga_id'' \<and> has_col lga ''lga_name''
      then and_then (select_cols [''lga_id'', ''lga_name'', ''state_id''] lga)
             (\<lambda>l. merge_left merged l ''lga_id'')
      else Inr merged)"

definition attach_state_name :: "state_mapping \<Rightarrow> frame \<Rightarrow> frame" where
  \<comment> \<open>\<^verbatim>\<open>merged['state_name'] = merged['state_id'].map(state_mapping)
      if 'state_id' in merged.columns else None\<close>\<close>
  "attach_state_name sm merged =
     set_col ''state_name''
       (if has_col merged ''state_id'' then (\<lambda>r. map_state sm (r ''state_id''))
        else (\<lambda>r. VNull)) merged"

definition party_columns_of :: "frame \<Rightarrow> frame \<Rightarrow> string list" where
  \<comment> \<open>the columns of the pivot, the identifier apart, that are columns of the merged table\<close>
  "party_columns_of party_pivot merged =
     filter (has_col merged)
       (filter (\<lambda>c. c \<noteq> ''polling_unit_uniqueid'') (fcolumns party_pivot))"

definition order_and_fill :: "frame \<Rightarrow> frame \<Rightarrow> error + frame" where
  \<comment> \<open>the final column order, and every party column filled with 0 and made integer\<close>
  "order_and_fill party_pivot merged =
     and_then
       (select_cols (filter (has_col merged) known @ sort (party_columns_of party_pivot merged))
          merged)
       (fillna0_astype_int_cols (party_columns_of party_pivot merged))"

definition assemble ::
  "frame \<Rightarrow> frame \<Rightarrow> frame \<Rightarrow> frame \<Rightarrow> (error + state_mapping) \<Rightarrow> error + frame" where
  \<comment> \<open>\<^verbatim>\<open>build_polling_unit_results_df\<close> after the tables are loaded; the last argument
      is the mapping given, or the call of \<^verbatim>\<open>_load_state_mapping\<close> made when none is\<close>
  "assemble pu ward lga announced mapping =
     (if is_empty pu then Inl (ValueError ''polling_unit table not found or empty in SQL file'')
      else if is_empty announced
      then Inl (ValueError ''announced_pu_results table not found or empty in SQL file'')
      else
        and_then (pivot_and_merge pu announced) (\<lambda>(party_pivot, merged1).
        and_then (merge_ward ward merged1) (\<lambda>merged2.
        and_then (merge_lga lga merged2) (\<lambda>merged3.
        and_then mapping (\<lambda>state_mapping.
          order_and_fill party_pivot (attach_state_name state_mapping merged3))))))"

definition build_polling_unit_results_df :: "string \<Rightarrow> state_mapping option \<Rightarrow> error + frame" where
  "build_polling_unit_results_df sql_text state_mapping =
     and_then (load_tables_from_sql sql_text
                 [''polling_unit'', ''ward'', ''lga'', ''announced_pu_results'']) (\<lambda>tables.
       assemble (table_get tables ''polling_unit'') (table_get tables ''ward'')
         (table_get tables ''lga'') (table_get tables ''announced_pu_results'')
         (case state_mapping of
            None \<Rightarrow> load_state_mapping sql_text None None
          | Some sm \<Rightarrow> Inr sm))"

section \<open>Mutation path: the row added to the table\<close>

definition int64 :: "sqlval \<Rightarrow> bool" where
  \<comment> \<open>not an integer outside the range of a 64-bit integer\<close>
  "int64 v =
     (case v of
        VInt n \<Rightarrow> - 9223372036854775808 \<le> n \<and> n < 9223372036854775808
      | _ \<Rightarrow> True)"

definition add_polling_unit_to_df :: "frame \<Rightarrow> pydict \<Rightarrow> error + frame" where
  \<comment> \<open>the row built from \<^verbatim>\<open>pu_row\<close> is appended and every column that is not an identity
      or hierarchy column is filled with 0 and made integer; the conversion of an integer
      beyond 64 bits is outside the model\<close>
  "add_polling_unit_to_df df pu_row =
     (let new = (\<lambda>col. if col \<in> set (fcolumns df) then
                          (if map_of pu_row col \<noteq> None then dict_get pu_row col
                           else if col \<in> set known then dict_get pu_row col
                           else VInt 0)
                        else VNull);
          new_df = df\<lparr>frows := frows df @ [new]\<rparr>;
          party_cols = filter (\<lambda>c. c \<notin> set known) (fcolumns new_df)
      in and_then (fillna0_astype_int_cols party_cols new_df) (\<lambda>d.
           if list_all (\<lambda>r. list_all (\<lambda>c. int64 (r c)) party_cols) (frows d) then Inr d
           else Inl (Unmodelled ''integer beyond 64 bits'')))"

section \<open>Query layer\<close>

definition id_name_pairs :: "string \<Rightarrow> string \<Rightarrow> frame \<Rightarrow> error + (int \<times> sqlval) list" where
  \<comment> \<open>\<^verbatim>\<open>[(int(r[0]), r[1]) for r in df[[id_col, name_col]].values.tolist()]\<close>\<close>
  "id_name_pairs id_col name_col f =
     map_err (\<lambda>r. and_then (py_int (r id_col)) (\<lambda>i. Inr (i, r name_col))) (frows f)"

definition get_states :: "frame \<Rightarrow> error + (int \<times> sqlval) list" where
  "get_states df =
     (if \<not> has_col df ''state_id'' \<and> \<not> has_col df ''state_name'' then Inr []
      else
        and_then (select_cols [''state_id'', ''state_name''] df) (\<lambda>d0.
        and_then (astype_int ''state_id'' (dropna ''state_id'' (drop_duplicates d0))) (\<lambda>d1.
        and_then (sort_values ''state_name''
                    (set_col ''state_name''
                       (\<lambda>r. if r ''state_name'' = VNull
                             then VStr (str_of_int (int_val (r ''state_id'')))
                             else r ''state_name'') d1))
          (id_name_pairs ''state_id'' ''state_name''))))"

definition where_eq :: "string \<Rightarrow> int \<Rightarrow> frame \<Rightarrow> error + frame" where
  \<comment> \<open>\<^verbatim>\<open>df[df[c] == n]\<close>\<close>
  "where_eq c n df =
     (if has_col df c then Inr (df\<lparr>frows := filter (\<lambda>r. r c = VInt n) (frows df)\<rparr>)
      else Inl (KeyError c))"

definition get_lgas_by_state :: "frame \<Rightarrow> int option \<Rightarrow> error + (int \<times> sqlval) list" where
  "get_lgas_by_state df state_id =
     and_then (case state_id of None \<Rightarrow> Inr df | Some sid \<Rightarrow> where_eq ''state_id'' sid df) (\<lambda>d.
     and_then (select_cols [''lga_id'', ''lga_name''] d) (\<lambda>d0.
     and_then (astype_int ''lga_id'' (dropna ''lga_id'' (drop_duplicates d0))) (\<lambda>df_lgas.
     and_then (sort_values ''lga_name'' df_lgas) (id_name_pairs ''lga_id'' ''lga_name''))))"

definition get_wards_by_lga :: "frame \<Rightarrow> int option \<Rightarrow> error + (int \<times> sqlval) list" where
  "get_wards_by_lga df lga_id =
     and_then (case lga_id of None \<Rightarrow> Inr df | Some lid \<Rightarrow> where_eq ''lga_id'' lid df) (\<lambda>d.
     and_then (select_cols [''ward_id'', ''ward_name''] d) (\<lambda>d0.
     and_then (astype_int ''ward_id'' (dropna ''ward_id'' (drop_duplicates d0))) (\<lambda>df_wards.
     and_then (sort_values ''ward_name'' df_wards) (id_name_pairs ''ward_id'' ''ward_name''))))"


section \<open>Token kinds in the words of the specification\<close>

text \<open>
  The four kinds of token that the contract of value coercion names, stated on the token
  itself and independently of the regular expressions of the code.
\<close>

definition digits :: "string \<Rightarrow> bool" where
  \<comment> \<open>one or more decimal digits\<close>
  "digits ds = (ds \<noteq> [] \<and> (\<forall>c \<in> set ds. c \<in> set ''0123456789''))"

definition decimal_value :: "string \<Rightarrow> int" where
  \<comment> \<open>the number that a string of digits writes in base ten\<close>
  "decimal_value ds = (\<Sum>i<length ds. digit_val (ds ! i) * 10 ^ (length ds - Suc i))"

definition null_token :: "string \<Rightarrow> bool" where
  \<comment> \<open>empty, or NULL in any mix of cases\<close>
  "null_token t = (t = [] \<or> list_all2 (\<lambda>c (u, l). c = u \<or> c = l) t (zip ''NULL'' ''null''))"

definition integer_token :: "string \<Rightarrow> bool" where
  \<comment> \<open>digits, after an optional minus sign\<close>
  "integer_token t = (digits t \<or> (\<exists>ds. t = CHR ''-'' # ds \<and> digits ds))"

definition decimal_token :: "string \<Rightarrow> bool" where
  \<comment> \<open>digits, a dot and digits, after an optional minus sign\<close>
  "decimal_token t =
     (\<exists>a b. digits a \<and> digits b \<and> (t = a @ ''.'' @ b \<or> t = CHR ''-'' # a @ ''.'' @ b))"


definition tally_sum :: "frame \<Rightarrow> int \<Rightarrow> string \<Rightarrow> int" where
  \<comment> \<open>the sum of the scores of the tally rows of polling unit \<open>i\<close> and party \<open>p\<close>\<close>
  "tally_sum announced i p =
     sum_list (map (\<lambda>a. int_val (a ''party_score''))
       (filter (\<lambda>a. py_int (a ''polling_unit_uniqueid'') = Inr i
                   \<and> a ''party_abbreviation'' = VStr p) (frows announced)))"

definition party_cells :: "(int \<Rightarrow> bool) \<Rightarrow> frame \<Rightarrow> bool" where
  \<comment> \<open>every cell of every column that is not an identity or hierarchy column is an
      integer, and one that satisfies \<open>P\<close>\<close>
  "party_cells P df =
     (\<forall>r \<in> set (frows df). \<forall>c \<in> set (fcolumns df). c \<notin> set known \<longrightarrow> (\<exists>n. r c = VInt n \<and> P n))"


section \<open>Relations between the rows before and after a step\<close>

definition filled :: "string \<Rightarrow> (string \<Rightarrow> sqlval) \<Rightarrow> (string \<Rightarrow> sqlval) \<Rightarrow> bool" where
  "filled c r r' = (\<exists>n. r' = r(c := VInt n) \<and> (r c = VNull \<longrightarrow> n = 0) \<and> (\<forall>k. r c = VInt k \<longrightarrow> n = k))"

definition filled_cols :: "string list \<Rightarrow> (string \<Rightarrow> sqlval) \<Rightarrow> (string \<Rightarrow> sqlval) \<Rightarrow> bool" where
  "filled_cols cs r r' =
     ((\<forall>c. c \<notin> set cs \<longrightarrow> r' c = r c) \<and>
      (\<forall>c \<in> set cs. \<exists>n. r' c = VInt n \<and> (r c = VNull \<longrightarrow> n = 0) \<and> (\<forall>k. r c = VInt k \<longrightarrow> n = k)))"


definition party_cell :: "frame \<Rightarrow> (string \<Rightarrow> sqlval) \<Rightarrow> string \<Rightarrow> bool" where
  \<comment> \<open>the cell of party \<open>p\<close> in a row of the merged table, before the missing cells are
      filled: the sum of the tally for the polling unit of the row, or missing when the
      tally has no row for that polling unit\<close>
  "party_cell announced x p =
     ((\<exists>i. x ''polling_unit_uniqueid'' = VInt i \<and> x p = VInt (tally_sum announced i p)) \<or>
      (x p = VNull \<and> (\<forall>i. x ''polling_unit_uniqueid'' = VInt i \<longrightarrow> tally_sum announced i p = 0)))"

definition party_rows :: "frame \<Rightarrow> string list \<Rightarrow> frame \<Rightarrow> bool" where
  "party_rows announced parties f =
     (''polling_unit_uniqueid'' \<in> set (fcolumns f) \<and> set parties \<subseteq> set (fcolumns f) \<and>
      (\<forall>x \<in> set (frows f). \<forall>p \<in> set parties. party_cell announced x p))"


section \<open>Evaluation rules\<close>

lemmas text_eval = strip_def strip_char_def is_space_def is_digit_def digit_val_def lower_def
  lower_ch_def upper_def upper_ch_def int_of_digits_def fullmatch_int_def fullmatch_float_def
  py_int_literal_def int_max_str_digits_def numeric_value_def convert_sql_value_def

lemmas csv_eval = csv_reader_next_def start_field_def parse_add_char_def parse_save_field_def
  is_newline_def field_limit_def

lemma lower_ch_i: "lower_ch c = CHR ''i'' \<longleftrightarrow> c = CHR ''I'' \<or> c = CHR ''i''"
proof
  assume l: "lower_ch c = CHR ''i''"
  show "c = CHR ''I'' \<or> c = CHR ''i''"
  proof (cases "map_of (zip ''ABCDEFGHIJKLMNOPQRSTUVWXYZ'' ''abcdefghijklmnopqrstuvwxyz'') c")
    case (Some x)
    with l have "x = CHR ''i''" by (simp add: lower_ch_def)
    with Some have "(c, CHR ''i'') \<in> set (zip ''ABCDEFGHIJKLMNOPQRSTUVWXYZ'' ''abcdefghijklmnopqrstuvwxyz'')"
      by (simp only: map_of_SomeD)
    then show ?thesis by simp
  next
    case None
    show ?thesis
    proof (cases "192 \<le> (of_char c :: nat) \<and> (of_char c :: nat) \<le> 222 \<and> (of_char c :: nat) \<noteq> 215")
      case True
      with None l have "char_of ((of_char c :: nat) + 32) = CHR ''i''"
        by (simp add: lower_ch_def Let_def)
      then have "(of_char (char_of ((of_char c :: nat) + 32)) :: nat) = of_char (CHR ''i'')" by simp
      then have "((of_char c :: nat) + 32) mod 256 = 105" by (simp only: of_char_of) simp
      with True show ?thesis by simp
    next
      case False
      with None l show ?thesis by (simp add: lower_ch_def Let_def)
    qed
  qed
next
  assume "c = CHR ''I'' \<or> c = CHR ''i''"
  then show "lower_ch c = CHR ''i''" by (elim disjE) (simp_all add: lower_ch_def)
qed

lemma find_inserts_skip:
  "c \<noteq> CHR ''I'' \<Longrightarrow> c \<noteq> CHR ''i'' \<Longrightarrow> find_inserts table (c # s) = find_inserts table s"
proof -
  assume "c \<noteq> CHR ''I''" "c \<noteq> CHR ''i''"
  then have "lower_ch (CHR ''I'') \<noteq> lower_ch c"
    using lower_ch_i [of c] lower_ch_i [of "CHR ''I''"] by auto
  then have "match_insert_at table (c # s) = None"
    by (simp add: match_insert_at_def)
  then show ?thesis by simp
qed

lemma find_inserts_I:
  "find_inserts table (CHR ''I'' # s) =
     (case match_insert_at table (CHR ''I'' # s) of
        None \<Rightarrow> find_inserts table s
      | Some (cols_raw, values_raw, rest) \<Rightarrow> (cols_raw, values_raw) # find_inserts table rest)"
  "find_inserts table (CHR ''i'' # s) =
     (case match_insert_at table (CHR ''i'' # s) of
        None \<Rightarrow> find_inserts table s
      | Some (cols_raw, values_raw, rest) \<Rightarrow> (cols_raw, values_raw) # find_inserts table rest)"
  by simp_all

lemma find_inserts_Nil: "find_inserts table [] = []"
  by simp

lemmas find_eval = find_inserts_Nil find_inserts_skip find_inserts_I match_insert_at_def


declare find_inserts.simps(2) [simp del]

lemmas extract_eval = parse_insert_blocks_def find_eval parse_cols_def parse_tuple_def
  pad_or_truncate_def dict_zip_def

lemmas format_eval = insert_stmt_def format_val_def int_max_str_digits_def col_order_def dict_get_def str_of_int_def
  str_of_nat.simps append_polling_unit_to_sql_def

lemmas frame_eval = and_then_def first_seen_def empty_frame_def DataFrame_def is_empty_def
  has_col_def column_def exact_int_def int_column_def py_int_str_def int_max_str_digits_def py_int_def select_cols_def
  set_col_def rename_col_def merge_left_def drop_duplicates_def dropna_def astype_int_def
  fillna0_astype_int_def sort_values_def table_get_def dict_get_def

lemmas resolver_eval = dict_of_pairs_def mapping_of_rows_def last_col_def fallback_mapping_def
  load_state_mapping_def str_of_int_def str_of_nat.simps

lemmas assembler_eval = Let_def known_def coerce_ids_def group_sum_def pivot_table_def map_state_def
  pivot_and_merge_def merge_ward_def merge_lga_def attach_state_name_def party_columns_of_def
  order_and_fill_def assemble_def build_polling_unit_results_df_def add_polling_unit_to_df_def int64_def

lemmas query_eval = id_name_pairs_def get_states_def where_eq_def get_lgas_by_state_def
  get_wards_by_lga_def


section \<open>The tables of the sample dumps\<close>

lemma sample_dump_tables:
  "load_tables_from_sql sample_dump [''polling_unit'', ''ward'', ''lga'', ''announced_pu_results'']
   = Inr [(''polling_unit'', DataFrame [[(''uniqueid'', VInt 7)], [(''uniqueid'', VInt 8)]]),
          (''ward'', empty_frame), (''lga'', empty_frame),
          (''announced_pu_results'', DataFrame
             [[(''polling_unit_uniqueid'', VInt 7), (''party_abbreviation'', VStr ''APC''), (''party_score'', VInt 120)],
              [(''polling_unit_uniqueid'', VInt 7), (''party_abbreviation'', VStr ''APC''), (''party_score'', VInt 30)],
              [(''polling_unit_uniqueid'', VInt 7), (''party_abbreviation'', VStr ''PDP''), (''party_score'', VInt 4)]])]"
  by (simp add: sample_dump_def and_then_def extract_eval csv_eval text_eval)

lemma sample_dump_mapping:
  "load_state_mapping sample_dump None None = Inr [(25, VStr ''Delta State'')]"
  by (simp add: sample_dump_def resolver_eval frame_eval extract_eval csv_eval text_eval)


lemma negative_dump_tables:
  "load_tables_from_sql negative_dump [''polling_unit'', ''ward'', ''lga'', ''announced_pu_results'']
   = Inr [(''polling_unit'', DataFrame [[(''uniqueid'', VInt 7)]]),
          (''ward'', empty_frame), (''lga'', empty_frame),
          (''announced_pu_results'', DataFrame
             [[(''polling_unit_uniqueid'', VInt 7), (''party_abbreviation'', VStr ''PDP''),
               (''party_score'', VInt (- 5))]])]"
  by (simp add: negative_dump_def and_then_def extract_eval csv_eval text_eval)

lemma negative_dump_mapping:
  "load_state_mapping negative_dump None None = Inr [(25, VStr ''Delta State'')]"
  by (simp add: negative_dump_def resolver_eval frame_eval extract_eval csv_eval text_eval)

section \<open>Value coercion\<close>

lemma upper_ch_N: "upper_ch c = CHR ''N'' \<longleftrightarrow> c = CHR ''N'' \<or> c = CHR ''n''"
  by (auto simp: upper_ch_def split: if_splits)
lemma upper_ch_U: "upper_ch c = CHR ''U'' \<longleftrightarrow> c = CHR ''U'' \<or> c = CHR ''u''"
  by (auto simp: upper_ch_def split: if_splits)
lemma upper_ch_L: "upper_ch c = CHR ''L'' \<longleftrightarrow> c = CHR ''L'' \<or> c = CHR ''l''"
  by (auto simp: upper_ch_def split: if_splits)

lemma upper_NULL: "upper t = ''NULL'' \<longleftrightarrow> list_all2 (\<lambda>c (u, l). c = u \<or> c = l) t (zip ''NULL'' ''null'')"
  by (auto simp: upper_def list_all2_Cons2 upper_ch_N upper_ch_U upper_ch_L)

lemma is_digit_not_minus: "is_digit c \<Longrightarrow> c \<noteq> CHR ''-'' \<and> c \<noteq> CHR ''.'' \<and> \<not> is_space c"
  by (auto simp: is_digit_def is_space_def)

lemma digits_iff: "digits ds \<longleftrightarrow> ds \<noteq> [] \<and> list_all is_digit ds"
  by (simp add: digits_def is_digit_def list_all_iff)

lemma fullmatch_int_iff: "fullmatch_int t \<longleftrightarrow> integer_token t"
proof (cases t)
  case Nil
  then show ?thesis by (simp add: fullmatch_int_def integer_token_def digits_iff)
next
  case (Cons c r)
  show ?thesis
  proof (cases "c = CHR ''-''")
    case True
    with Cons show ?thesis
      using is_digit_not_minus [of c]
      by (auto simp: fullmatch_int_def integer_token_def digits_iff)
  next
    case False
    with Cons show ?thesis
      by (auto simp: fullmatch_int_def integer_token_def digits_iff)
  qed
qed

lemma float_body:
  "(takeWhile is_digit ds \<noteq> [] \<and>
     (case dropWhile is_digit ds of [] \<Rightarrow> False
      | d # f \<Rightarrow> d = CHR ''.'' \<and> f \<noteq> [] \<and> list_all is_digit f))
   \<longleftrightarrow> (\<exists>a b. digits a \<and> digits b \<and> ds = a @ ''.'' @ b)"
proof
  assume l: "takeWhile is_digit ds \<noteq> [] \<and>
     (case dropWhile is_digit ds of [] \<Rightarrow> False
      | d # f \<Rightarrow> d = CHR ''.'' \<and> f \<noteq> [] \<and> list_all is_digit f)"
  then obtain f where d: "dropWhile is_digit ds = CHR ''.'' # f" and f: "f \<noteq> []" "list_all is_digit f"
    by (auto split: list.splits)
  have "ds = takeWhile is_digit ds @ dropWhile is_digit ds" by simp
  then have ds: "ds = takeWhile is_digit ds @ ''.'' @ f" using d by simp
  have "digits (takeWhile is_digit ds)"
    using l by (auto simp: digits_iff list_all_iff dest: set_takeWhileD)
  moreover have "digits f" using f by (simp add: digits_iff)
  ultimately show "\<exists>a b. digits a \<and> digits b \<and> ds = a @ ''.'' @ b" using ds by blast
next
  assume "\<exists>a b. digits a \<and> digits b \<and> ds = a @ ''.'' @ b"
  then obtain a b where a: "digits a" and b: "digits b" and ds: "ds = a @ ''.'' @ b" by blast
  have all_a: "\<And>x. x \<in> set a \<Longrightarrow> is_digit x" using a by (simp add: digits_iff list_all_iff)
  have nd: "\<not> is_digit (CHR ''.'')" by (simp add: is_digit_def)
  have t: "takeWhile is_digit ds = a"
    using all_a nd by (simp add: ds takeWhile_append2)
  have d: "dropWhile is_digit ds = CHR ''.'' # b"
    using all_a nd by (simp add: ds dropWhile_append2)
  show "takeWhile is_digit ds \<noteq> [] \<and>
     (case dropWhile is_digit ds of [] \<Rightarrow> False
      | d # f \<Rightarrow> d = CHR ''.'' \<and> f \<noteq> [] \<and> list_all is_digit f)"
    using a b by (simp add: t d digits_iff)
qed

lemma fullmatch_float_iff: "fullmatch_float t \<longleftrightarrow> decimal_token t"
proof (cases t)
  case Nil
  then show ?thesis by (simp add: fullmatch_float_def decimal_token_def digits_def)
next
  case (Cons c r)
  show ?thesis
  proof (cases "c = CHR ''-''")
    case True
    have no: "\<not> (\<exists>a b. digits a \<and> digits b \<and> t = a @ ''.'' @ b)"
    proof
      assume "\<exists>a b. digits a \<and> digits b \<and> t = a @ ''.'' @ b"
      then obtain a b where a: "digits a" and t: "t = a @ ''.'' @ b" by blast
      from a obtain x xs where ax: "a = x # xs" by (cases a) (auto simp: digits_def)
      with a have "is_digit x" by (simp add: digits_iff)
      moreover from t ax Cons True have "x = CHR ''-''" by simp
      ultimately show False using is_digit_not_minus by blast
    qed
    have "fullmatch_float t \<longleftrightarrow> (\<exists>a b. digits a \<and> digits b \<and> r = a @ ''.'' @ b)"
      using Cons True float_body [of r] by (simp add: fullmatch_float_def Let_def)
    also have "\<dots> \<longleftrightarrow> decimal_token t"
      using no Cons True by (auto simp: decimal_token_def)
    finally show ?thesis .
  next
    case False
    have "fullmatch_float t \<longleftrightarrow> (\<exists>a b. digits a \<and> digits b \<and> t = a @ ''.'' @ b)"
      using Cons False float_body [of t] by (simp add: fullmatch_float_def Let_def)
    also have "\<dots> \<longleftrightarrow> decimal_token t"
      using Cons False by (auto simp: decimal_token_def)
    finally show ?thesis .
  qed
qed

lemma decimal_value_Cons:
  "decimal_value (x # xs) = digit_val x * 10 ^ length xs + decimal_value xs"
  unfolding decimal_value_def
  by (simp add: sum.lessThan_Suc_shift del: sum.lessThan_Suc)

lemma foldl_digits:
  "foldl (\<lambda>a c. 10 * a + digit_val c) a0 ds = a0 * 10 ^ length ds + decimal_value ds"
proof (induction ds arbitrary: a0)
  case Nil
  then show ?case by (simp add: decimal_value_def)
next
  case (Cons x xs)
  show ?case
    unfolding foldl_Cons Cons.IH decimal_value_Cons by (simp add: algebra_simps)
qed

lemma int_of_digits_value: "int_of_digits ds = decimal_value ds"
  by (simp add: int_of_digits_def foldl_digits)


lemma strip_id:
  assumes "xs \<noteq> []" "\<not> is_space (hd xs)" "\<not> is_space (last xs)"
  shows "strip xs = xs"
proof -
  have a: "dropWhile is_space xs = xs" using assms by (cases xs) auto
  have "rev xs \<noteq> []" "\<not> is_space (hd (rev xs))" using assms by (simp_all add: hd_rev)
  then have b: "dropWhile is_space (rev xs) = rev xs" by (cases "rev xs") auto
  show ?thesis by (simp add: strip_def a b)
qed

lemma digits_mem: "digits ds \<Longrightarrow> c \<in> set ds \<Longrightarrow> is_digit c"
  by (simp add: digits_def is_digit_def)

lemma digits_no_minus: "digits ds \<Longrightarrow> filter (\<lambda>c. c \<noteq> CHR ''-'') ds = ds"
proof -
  assume d: "digits ds"
  have "\<forall>c \<in> set ds. c \<noteq> CHR ''-''"
  proof
    fix c assume "c \<in> set ds"
    with d have "is_digit c" by (rule digits_mem)
    then show "c \<noteq> CHR ''-''" using is_digit_not_minus by blast
  qed
  then show ?thesis by (simp add: filter_id_conv)
qed

lemma digits_strip:
  assumes "digits ds"
  shows "strip ds = ds" and "strip (CHR ''-'' # ds) = CHR ''-'' # ds"
proof -
  from assms have ne: "ds \<noteq> []" by (simp add: digits_def)
  then have "is_digit (hd ds)" "is_digit (last ds)" using assms by (auto intro: digits_mem)
  then have sp: "\<not> is_space (hd ds)" "\<not> is_space (last ds)" using is_digit_not_minus by blast+
  show "strip ds = ds" using ne sp by (rule strip_id)
  have "\<not> is_space (CHR ''-'')" by (simp add: is_space_def)
  then show "strip (CHR ''-'' # ds) = CHR ''-'' # ds"
    using ne sp by (intro strip_id) simp_all
qed

lemma digits_not_null:
  assumes "digits ds"
  shows "\<not> null_token ds" and "\<not> null_token (CHR ''-'' # ds)"
proof -
  from assms obtain x xs where ds: "ds = x # xs" by (cases ds) (auto simp: digits_def)
  with assms have "is_digit x" by (auto intro: digits_mem)
  then have "x \<notin> set ''NULLnull''" by (auto simp: is_digit_def)
  then show "\<not> null_token ds" by (auto simp: ds null_token_def list_all2_Cons2)
  show "\<not> null_token (CHR ''-'' # ds)" by (simp add: null_token_def list_all2_Cons2)
qed

lemma integer_token_cases:
  assumes "integer_token t"
  obtains (plain) c r where "t = c # r" "c \<noteq> CHR ''-''" "digits t"
        | (minus) ds where "t = CHR ''-'' # ds" "digits ds"
proof (cases "digits t")
  case True
  then obtain c r where t: "t = c # r" by (cases t) (auto simp: digits_def)
  with True have "is_digit c" by (auto intro: digits_mem)
  then have "c \<noteq> CHR ''-''" using is_digit_not_minus by blast
  from t this True show ?thesis by (rule plain)
next
  case False
  with assms obtain ds where "t = CHR ''-'' # ds" "digits ds" by (auto simp: integer_token_def)
  then show ?thesis by (rule minus)
qed

lemma numeric_value_integer:
  assumes "integer_token t"
  shows "(case numeric_value t of Inl e \<Rightarrow> VStr t | Inr None \<Rightarrow> VStr t | Inr (Some v) \<Rightarrow> v) =
     (if length (filter (\<lambda>c. c \<noteq> CHR ''-'') t) \<le> 4300
      then VInt (case t of [] \<Rightarrow> 0
                 | c # ds \<Rightarrow> if c = CHR ''-'' then - decimal_value ds else decimal_value t)
      else VStr t)"
  using assms
proof (cases rule: integer_token_cases)
  case (plain c r)
  from plain(3) have "filter (\<lambda>c. c \<noteq> CHR ''-'') t = t" by (rule digits_no_minus)
  then have f: "length (filter (\<lambda>c. c \<noteq> CHR ''-'') t) = length t" by simp
  have "py_int_literal t =
      (if 4300 < length t
       then Inl (ValueError ''Exceeds the limit (4300 digits) for integer string conversion'')
       else Inr (decimal_value t))"
    using plain(1,2) by (simp add: py_int_literal_def int_max_str_digits_def int_of_digits_value)
  then show ?thesis
    unfolding f using assms plain(1,2)
    by (simp add: numeric_value_def fullmatch_int_iff)
next
  case (minus ds)
  from minus(2) have "filter (\<lambda>c. c \<noteq> CHR ''-'') ds = ds" by (rule digits_no_minus)
  then have f: "length (filter (\<lambda>c. c \<noteq> CHR ''-'') t) = length ds" by (simp add: minus(1))
  have "py_int_literal t =
      (if 4300 < length ds
       then Inl (ValueError ''Exceeds the limit (4300 digits) for integer string conversion'')
       else Inr (- decimal_value ds))"
    by (simp add: minus(1) py_int_literal_def int_max_str_digits_def int_of_digits_value)
  then show ?thesis
    unfolding f using assms minus(1)
    by (simp add: numeric_value_def fullmatch_int_iff)
qed

lemma convert_sql_value_spec:
  "convert_sql_value token =
     (let t = strip token in
      if null_token t then VNull
      else if integer_token t then
        (if length (filter (\<lambda>c. c \<noteq> CHR ''-'') t) \<le> 4300
         then VInt (case t of [] \<Rightarrow> 0
                    | c # ds \<Rightarrow> if c = CHR ''-'' then - decimal_value ds else decimal_value t)
         else VStr t)
      else if decimal_token t then VFloat t
      else VStr t)"
proof -
  let ?t = "strip token"
  have n: "(upper ?t = ''NULL'' \<or> ?t = []) \<longleftrightarrow> null_token ?t"
    unfolding null_token_def upper_NULL by blast
  show ?thesis
  proof (cases "null_token ?t")
    case True
    then show ?thesis unfolding convert_sql_value_def Let_def n by simp
  next
    case nn: False
    show ?thesis
    proof (cases "integer_token ?t")
      case True
      with nn show ?thesis
        unfolding convert_sql_value_def Let_def n
        by (simp only: numeric_value_integer [OF True] if_False if_True)
    next
      case False
      with nn show ?thesis
        unfolding convert_sql_value_def Let_def n
        by (simp add: numeric_value_def fullmatch_int_iff fullmatch_float_iff)
    qed
  qed
qed

lemma leading_zero_is_integer:
  assumes "digits ds" "length ds < 4300"
  shows "convert_sql_value (CHR ''0'' # ds) = VInt (decimal_value ds)"
proof -
  let ?t = "CHR ''0'' # ds"
  have d: "digits ?t" using assms(1) by (simp add: digits_def)
  have s: "strip ?t = ?t" using d by (rule digits_strip(1))
  have nn: "\<not> null_token ?t" using d by (rule digits_not_null(1))
  have it: "integer_token ?t" using d by (simp add: integer_token_def)
  have f: "filter (\<lambda>c. c \<noteq> CHR ''-'') ?t = ?t" using d by (rule digits_no_minus)
  show ?thesis
    unfolding convert_sql_value_spec Let_def s f using nn it assms(2)
    by (simp add: decimal_value_Cons digit_val_def)
qed

lemma long_digits_is_string:
  assumes "digits ds" "4300 < length ds"
  shows "convert_sql_value ds = VStr ds"
    and "convert_sql_value (CHR ''-'' # ds) = VStr (CHR ''-'' # ds)"
proof -
  have f: "filter (\<lambda>c. c \<noteq> CHR ''-'') ds = ds" using assms(1) by (rule digits_no_minus)
  have i1: "integer_token ds" "integer_token (CHR ''-'' # ds)"
    using assms(1) by (simp_all add: integer_token_def)
  show "convert_sql_value ds = VStr ds"
    unfolding convert_sql_value_spec Let_def digits_strip(1) [OF assms(1)]
    using digits_not_null(1) [OF assms(1)] i1(1) assms(2) by (simp add: f)
  show "convert_sql_value (CHR ''-'' # ds) = VStr (CHR ''-'' # ds)"
    unfolding convert_sql_value_spec Let_def digits_strip(2) [OF assms(1)]
    using digits_not_null(2) [OF assms(1)] i1(2) assms(2) by (simp add: f)
qed

lemma exponent_is_string:
  assumes "strip t = t" "CHR ''e'' \<in> set t \<or> CHR ''E'' \<in> set t"
  shows "convert_sql_value t = VStr t"
proof -
  from assms(2) obtain x where x: "x \<in> set t" and xe: "x = CHR ''e'' \<or> x = CHR ''E''"
    by blast
  have xd: "\<not> is_digit x" using xe by (auto simp: is_digit_def)
  have xm: "x \<noteq> CHR ''-''" "x \<noteq> CHR ''.''" using xe by auto
  have nn: "\<not> null_token t"
  proof
    assume "null_token t"
    then have "set t \<subseteq> set ''NULLnull''"
      by (auto simp: null_token_def list_all2_Cons2)
    with x xe show False by auto
  qed
  have ni: "\<not> integer_token t"
  proof
    assume "integer_token t"
    then consider "digits t" | ds where "t = CHR ''-'' # ds" "digits ds"
      by (auto simp: integer_token_def)
    then show False
    proof cases
      case 1
      with x xd show False by (blast dest: digits_mem)
    next
      case 2
      with x xm have "x \<in> set ds" by simp
      with 2 xd show False by (blast dest: digits_mem)
    qed
  qed
  have nd: "\<not> decimal_token t"
  proof
    assume "decimal_token t"
    then obtain a b where ab: "digits a" "digits b"
      and t: "t = a @ ''.'' @ b \<or> t = CHR ''-'' # a @ ''.'' @ b"
      by (auto simp: decimal_token_def)
    from t x xm have "x \<in> set a \<or> x \<in> set b" by auto
    with ab xd show False by (blast dest: digits_mem)
  qed
  show ?thesis
    unfolding convert_sql_value_spec Let_def assms(1) using nn ni nd by simp
qed

text \<open>
  C7, as stated. The claim counts a token with leading zeros among those that stay
  strings. The integer pattern of the code accepts any digits: \<^verbatim>\<open>007\<close> is the integer 7.
\<close>

theorem leading_zeros_counterexample:
  "convert_sql_value ''007'' = VInt 7 \<and> convert_sql_value ''007'' \<noteq> VStr ''007''"
  by (simp add: text_eval)

text \<open>
  C7, as amended. Value coercion returns exactly one of four results, decided on the
  trimmed token: null when it is empty or NULL in any mix of cases; the integer it
  writes in base ten when it is at most 4300 digits (the interpreter's default limit on
  the conversion) after an optional minus sign, leading zeros included (they count
  towards the limit and do not change the value); a float holding the token when it is
  digits, a dot and digits after an optional minus sign; and the trimmed token itself,
  as a string, otherwise. An all-digit token beyond the limit makes the conversion
  raise, and the token is left as a string. A token with an exponent letter is a string.
\<close>

theorem convert_sql_value_kinds:
  "convert_sql_value token =
     (let t = strip token in
      if null_token t then VNull
      else if integer_token t then
        (if length (filter (\<lambda>c. c \<noteq> CHR ''-'') t) \<le> 4300
         then VInt (case t of [] \<Rightarrow> 0
                    | c # ds \<Rightarrow> if c = CHR ''-'' then - decimal_value ds else decimal_value t)
         else VStr t)
      else if decimal_token t then VFloat t
      else VStr t)
   \<and> (\<forall>ds. digits ds \<and> length ds < 4300
          \<longrightarrow> convert_sql_value (CHR ''0'' # ds) = VInt (decimal_value ds))
   \<and> (\<forall>ds. digits ds \<and> 4300 < length ds
          \<longrightarrow> convert_sql_value ds = VStr ds
              \<and> convert_sql_value (CHR ''-'' # ds) = VStr (CHR ''-'' # ds))
   \<and> (\<forall>t. strip t = t \<and> (CHR ''e'' \<in> set t \<or> CHR ''E'' \<in> set t)
          \<longrightarrow> convert_sql_value t = VStr t)"
  using convert_sql_value_spec leading_zero_is_integer long_digits_is_string exponent_is_string
  by blast

theorem convert_sql_value_kinds_witness:
  "convert_sql_value '' nUlL '' = VNull
   \<and> convert_sql_value ''-42'' = VInt (- 42)
   \<and> convert_sql_value ''3.50'' = VFloat ''3.50''
   \<and> convert_sql_value ''x y'' = VStr ''x y''
   \<and> convert_sql_value ''07'' = VInt 7
   \<and> convert_sql_value ''1e5'' = VStr ''1e5''
   \<and> convert_sql_value (replicate 4301 (CHR ''1'')) = VStr (replicate 4301 (CHR ''1''))"
proof -
  have dv: "\<And>ds. decimal_value ds = int_of_digits ds" by (simp add: int_of_digits_value)
  have s1: "strip '' nUlL '' = ''nUlL''" by (simp add: strip_def is_space_def)
  have s2: "strip ''-42'' = ''-42''" by (simp add: strip_def is_space_def)
  have s3: "strip ''3.50'' = ''3.50''" by (simp add: strip_def is_space_def)
  have s4: "strip ''x y'' = ''x y''" by (simp add: strip_def is_space_def)
  have s5: "strip ''1e5'' = ''1e5''" by (simp add: strip_def is_space_def)
  have d3: "decimal_token ''3.50''"
    unfolding decimal_token_def
    by (rule exI [of _ "''3''"], rule exI [of _ "''50''"]) (simp add: digits_def)
  have n3: "\<not> integer_token ''3.50''" by (simp add: integer_token_def digits_def)
  have n4: "\<not> integer_token ''x y''" by (simp add: integer_token_def digits_def)
  have m4: "\<not> decimal_token ''x y''" by (auto simp: decimal_token_def digits_def Cons_eq_append_conv)
  have d7: "digits (replicate 4301 (CHR ''1''))" by (simp add: digits_def)
  have c1: "convert_sql_value '' nUlL '' = VNull"
    using convert_sql_value_kinds [of "'' nUlL ''"]
    by (simp add: s1 null_token_def)
  have c2: "convert_sql_value ''-42'' = VInt (- 42)"
    using convert_sql_value_kinds [of "''-42''"]
    by (simp add: s2 null_token_def integer_token_def digits_def dv int_of_digits_def digit_val_def)
  have c3: "convert_sql_value ''3.50'' = VFloat ''3.50''"
    using convert_sql_value_kinds [of "''3.50''"] d3 n3
    by (simp add: s3 null_token_def)
  have c4: "convert_sql_value ''x y'' = VStr ''x y''"
    using convert_sql_value_kinds [of "''x y''"] n4 m4
    by (simp add: s4 null_token_def)
  have c5: "convert_sql_value ''07'' = VInt 7"
    using convert_sql_value_kinds [of "[]"]
    by (simp add: digits_def dv int_of_digits_def digit_val_def)
  have c6: "convert_sql_value ''1e5'' = VStr ''1e5''"
    using convert_sql_value_kinds [of "[]"] s5 by simp
  have c7: "convert_sql_value (replicate 4301 (CHR ''1'')) = VStr (replicate 4301 (CHR ''1''))"
    using convert_sql_value_kinds [of "[]"] d7 by simp
  show ?thesis using c1 c2 c3 c4 c5 c6 c7 by simp
qed


section \<open>Statement extractor: the comma split and the count mismatch\<close>

lemma dict_zip_keys_aux:
  "fst ` set (foldl (\<lambda>d (k, v). AList.update k v d) d0 kvs) = fst ` set d0 \<union> fst ` set kvs"
proof (induction kvs arbitrary: d0)
  case Nil
  then show ?case by simp
next
  case (Cons kv kvs)
  obtain k v where kv: "kv = (k, v)" by (cases kv)
  have "fst ` set (AList.update k v d0) = insert k (fst ` set d0)"
    by (simp add: AList.dom_update)
  then show ?case using Cons.IH [of "AList.update k v d0"] kv by auto
qed

lemma update_new_key: "k \<notin> fst ` set al \<Longrightarrow> AList.update k v al = al @ [(k, v)]"
  by (induction al) auto

lemma dict_zip_distinct_aux:
  "distinct (map fst kvs) \<Longrightarrow> fst ` set d0 \<inter> fst ` set kvs = {} \<Longrightarrow>
   foldl (\<lambda>d (k, v). AList.update k v d) d0 kvs = d0 @ kvs"
proof (induction kvs arbitrary: d0)
  case Nil
  then show ?case by simp
next
  case (Cons kv kvs)
  obtain k v where kv: "kv = (k, v)" by (cases kv)
  from Cons.prems kv have new: "k \<notin> fst ` set d0" by auto
  have step: "AList.update k v d0 = d0 @ [(k, v)]" using new by (rule update_new_key)
  have disj: "fst ` set (d0 @ [(k, v)]) \<inter> fst ` set kvs = {}"
    using Cons.prems kv by auto
  have dist: "distinct (map fst kvs)" using Cons.prems by simp
  show ?case using Cons.IH [OF dist disj] kv step by simp
qed

lemma dict_zip_keys: "length vals = length cols \<Longrightarrow> fst ` set (dict_zip cols vals) = set cols"
proof -
  assume len: "length vals = length cols"
  have "fst ` set (zip cols vals) = set (map fst (zip cols vals))" by simp
  also have "\<dots> = set cols" using len by (simp only: map_fst_zip)
  finally show ?thesis by (simp add: dict_zip_def dict_zip_keys_aux)
qed

lemma dict_zip_distinct:
  "distinct cols \<Longrightarrow> length vals = length cols \<Longrightarrow> dict_zip cols vals = zip cols vals"
  using dict_zip_distinct_aux [of "zip cols vals" "[]"] by (simp add: dict_zip_def)

lemma pad_or_truncate_eq:
  "pad_or_truncate n parsed = take n parsed @ replicate (n - length parsed) VNull"
  by (simp add: pad_or_truncate_def)

text \<open>
  C9. For a value tuple that the reader splits into tokens, whatever their number, the
  extractor raises nothing and produces a row whose keys are exactly the declared columns:
  the coerced tokens in order, cut after the last column when there are more tokens
  than columns, and followed by nulls when there are fewer.
\<close>

theorem parse_tuple_pads_or_truncates:
  assumes "csv_reader_next tup = Inr toks"
  shows "\<exists>vals. parse_tuple cols tup = Inr (dict_zip cols vals)
           \<and> vals = take (length cols) (map convert_sql_value toks)
                      @ replicate (length cols - length toks) VNull
           \<and> length vals = length cols
           \<and> fst ` set (dict_zip cols vals) = set cols
           \<and> (distinct cols \<longrightarrow> dict_zip cols vals = zip cols vals)"
proof -
  let ?vals = "take (length cols) (map convert_sql_value toks)
                 @ replicate (length cols - length toks) VNull"
  have len: "length ?vals = length cols" by simp
  have "parse_tuple cols tup = Inr (dict_zip cols ?vals)"
    using assms by (simp add: parse_tuple_def pad_or_truncate_eq)
  moreover have "fst ` set (dict_zip cols ?vals) = set cols"
    using len by (rule dict_zip_keys)
  moreover have "distinct cols \<longrightarrow> dict_zip cols ?vals = zip cols ?vals"
    using len by (simp add: dict_zip_distinct)
  ultimately show ?thesis using len by blast
qed

theorem parse_tuple_pads_or_truncates_witness:
  "parse_tuple [''a'', ''b'', ''c''] ''1, NULL'' = Inr [(''a'', VInt 1), (''b'', VNull), (''c'', VNull)]
   \<and> parse_tuple [''a'', ''b''] ''1, x, 3, 4'' = Inr [(''a'', VInt 1), (''b'', VStr ''x'')]"
proof -
  have t1: "csv_reader_next ''1, NULL'' = Inr [''1'', ''NULL'']"
    by (simp add: csv_eval)
  have t2: "csv_reader_next ''1, x, 3, 4'' = Inr [''1'', ''x'', ''3'', ''4'']"
    by (simp add: csv_eval)
  have c1: "map convert_sql_value [''1'', ''NULL''] = [VInt 1, VNull]"
    by (simp add: text_eval)
  have c2: "map convert_sql_value [''1'', ''x'', ''3'', ''4''] = [VInt 1, VStr ''x'', VInt 3, VInt 4]"
    by (simp add: text_eval)
  show ?thesis
    using parse_tuple_pads_or_truncates [OF t1, of "[''a'', ''b'', ''c'']"]
          parse_tuple_pads_or_truncates [OF t2, of "[''a'', ''b'']"]
    unfolding c1 c2 by simp
qed

text \<open>
  C5. The claim asks that a quoted region with a backslash-escaped quote stays one token.
  The reader knows no escape character: in the tuple \<^verbatim>\<open>1, 'O\'Neil, Jr', 2\<close> the quote
  after the backslash ends the quoted region, and the comma after \<^verbatim>\<open>Neil\<close> splits the
  value in two. A quoted region without an escaped quote keeps its commas.
\<close>

theorem csv_reader_splits_after_escaped_quote:
  "csv_reader_next (''1, '' @ [CHR 0x27] @ ''O'' @ [CHR 0x5C, CHR 0x27] @ ''Neil, Jr'' @ [CHR 0x27] @ '', 2'')
     = Inr [''1'', ''O'' @ [CHR 0x5C] @ ''Neil'', ''Jr'' @ [CHR 0x27], ''2'']
   \<and> csv_reader_next (''1, '' @ [CHR 0x27] @ ''Neil, Jr'' @ [CHR 0x27] @ '', 2'')
     = Inr [''1'', ''Neil, Jr'', ''2'']"
  by (simp add: csv_eval)

text \<open>
  C6. The formatter writes an embedded quote as backslash and quote, which the extractor
  does not read back (the defect of C5): the polling unit named \<^verbatim>\<open>St. Mary's\<close> is
  appended to an empty file and extracted again with the name \<^verbatim>\<open>St. Mary\s'\<close>.
  The empty strings come back as null and the other fields as they were.
\<close>

theorem round_trip_loses_quoted_name:
  "and_then
     (append_polling_unit_to_sql []
        [(''uniqueid'', VInt 9001), (''polling_unit_id'', VInt 0), (''ward_id'', VInt 3),
         (''lga_id'', VInt 19), (''uniquewardid'', VInt 0),
         (''polling_unit_number'', VStr ''PU9001''),
         (''polling_unit_name'', VStr (''St. Mary'' @ [CHR 0x27] @ ''s'')),
         (''polling_unit_description'', VStr []), (''lat'', VNull), (''long'', VNull),
         (''entered_by_user'', VStr []), (''date_entered'', VStr ''0000-00-00 00:00:00''),
         (''user_ip_address'', VStr [])])
     (\<lambda>(sql_file, stmt). parse_insert_blocks sql_file ''polling_unit'')
   = Inr [[(''uniqueid'', VInt 9001), (''polling_unit_id'', VInt 0), (''ward_id'', VInt 3),
           (''lga_id'', VInt 19), (''uniquewardid'', VInt 0),
           (''polling_unit_number'', VStr ''PU9001''),
           (''polling_unit_name'', VStr (''St. Mary'' @ [CHR 0x5C] @ ''s'' @ [CHR 0x27])),
           (''polling_unit_description'', VNull), (''lat'', VNull), (''long'', VNull),
           (''entered_by_user'', VNull), (''date_entered'', VStr ''0000-00-00 00:00:00''),
           (''user_ip_address'', VNull)]]"
  by (simp add: and_then_def format_eval extract_eval csv_eval text_eval)


section \<open>Hierarchy resolver: the override\<close>

text \<open>
  C2. The claim asks that identifier 25 maps to \<^verbatim>\<open>Delta State\<close> whichever path
  produces the mapping. The override is the last statement of the function and the three
  earlier paths return before it: a \<^verbatim>\<open>state\<close> table, an explicit mapping and an
  external table each come back as they are, with another name for 25 or without 25.
  Only the mapping derived from the \<^verbatim>\<open>lga\<close> table is overridden.
\<close>

theorem load_state_mapping_returns_before_override:
  "load_state_mapping
     (''INSERT INTO `state` (`state_id`,`state_name`) VALUES (25,''
        @ [CHR 0x27] @ ''Delta'' @ [CHR 0x27] @ '');'')
     None None
     = Inr [(25, VStr ''Delta'')]
   \<and> load_state_mapping [] None (Some [(VInt 25, VStr ''Delta'')]) = Inr [(25, VStr ''Delta'')]
   \<and> load_state_mapping []
       (Some (DataFrame [[(''state_id'', VInt 1), (''state_name'', VStr ''Abia'')]])) None
     = Inr [(1, VStr ''Abia'')]
   \<and> load_state_mapping (''INSERT INTO `lga` (`lga_id`,`state_id`) VALUES (1,25),(2,10);'')
       None None
     = Inr [(10, VStr ''State 10''), (25, VStr ''Delta State'')]"
  by (simp add: resolver_eval frame_eval extract_eval csv_eval text_eval)

section \<open>Query layer\<close>

text \<open>
  C10. When the table has exactly one of the columns \<^verbatim>\<open>state_id\<close> and
  \<^verbatim>\<open>state_name\<close>, the guard of \<^verbatim>\<open>get_states\<close> (both missing) does not hold and
  the selection of the two columns raises KeyError for the missing one; the function
  does not return the empty list.
\<close>

theorem get_states_one_column_raises:
  assumes "has_col df ''state_id'' \<noteq> has_col df ''state_name''"
  shows "get_states df
           = Inl (KeyError (if has_col df ''state_id'' then ''state_name'' else ''state_id''))
         \<and> get_states df \<noteq> Inr []"
proof (cases "has_col df ''state_id''")
  case True
  with assms have "\<not> has_col df ''state_name''" by simp
  with True show ?thesis
    by (simp add: get_states_def select_cols_def and_then_def)
next
  case False
  with assms have "has_col df ''state_name''" by simp
  with False show ?thesis
    by (simp add: get_states_def select_cols_def and_then_def)
qed

theorem get_states_one_column_raises_witness:
  "get_states \<lparr>fcolumns = [''polling_unit_uniqueid'', ''lga_id'', ''state_name'', ''APC''],
               frows = [\<lambda>c. VNull]\<rparr> = Inl (KeyError ''state_id'')"
  using get_states_one_column_raises
    [of "\<lparr>fcolumns = [''polling_unit_uniqueid'', ''lga_id'', ''state_name'', ''APC''],
          frows = [\<lambda>c. VNull]\<rparr>"]
  by (simp add: has_col_def)

text \<open>
  C8. The claim gives the child listings the null handling of the state listing. They
  drop the rows without identifier and sort by name, but they do not replace a null name:
  for a table with an LGA and a ward whose names are null, \<^verbatim>\<open>get_lgas_by_state\<close> and
  \<^verbatim>\<open>get_wards_by_lga\<close> return the pairs with the null name (last, after the named
  ones), where \<^verbatim>\<open>get_states\<close> on the same table returns the identifier as a string.
\<close>

theorem child_listings_keep_null_name:
  "(let df = DataFrame
       [[(''state_id'', VInt 25), (''state_name'', VNull), (''lga_id'', VInt 5),
         (''lga_name'', VNull), (''ward_id'', VInt 9), (''ward_name'', VNull)],
        [(''state_id'', VInt 25), (''state_name'', VNull), (''lga_id'', VInt 3),
         (''lga_name'', VStr ''Aniocha North''), (''ward_id'', VInt 4),
         (''ward_name'', VStr ''Ward A'')]]
    in get_lgas_by_state df None = Inr [(3, VStr ''Aniocha North''), (5, VNull)]
       \<and> get_lgas_by_state df (Some 25) = Inr [(3, VStr ''Aniocha North''), (5, VNull)]
       \<and> get_wards_by_lga df None = Inr [(4, VStr ''Ward A''), (9, VNull)]
       \<and> get_wards_by_lga df (Some 5) = Inr [(9, VNull)]
       \<and> get_states df = Inr [(25, VStr ''25'')])"
  by (simp add: Let_def query_eval frame_eval text_eval str_of_int_def str_of_nat.simps)


section \<open>Properties of the table operations\<close>

lemma and_then_Inr_iff: "and_then m f = Inr y \<longleftrightarrow> (\<exists>x. m = Inr x \<and> f x = Inr y)"
  by (cases m) (simp_all add: and_then_def)

lemma and_then_Inl_iff: "and_then m f = Inl e \<longleftrightarrow> (m = Inl e \<or> (\<exists>x. m = Inr x \<and> f x = Inl e))"
  by (cases m) (simp_all add: and_then_def)

lemma map_err_Inr_iff: "map_err f xs = Inr ys \<longleftrightarrow> list_all2 (\<lambda>x y. f x = Inr y) xs ys"
proof (induction xs arbitrary: ys)
  case Nil
  then show ?case by auto
next
  case (Cons x xs)
  show ?case
  proof (cases "f x")
    case (Inl e)
    then show ?thesis by (auto simp: list_all2_Cons1)
  next
    case (Inr y)
    then show ?thesis
      using Cons.IH by (cases "map_err f xs") (auto simp: list_all2_Cons1)
  qed
qed

lemma map_err_Inl: "map_err f xs = Inl e \<Longrightarrow> \<exists>x \<in> set xs. f x = Inl e"
  by (induction xs) (auto split: sum.splits)

lemma map_err_total:
  "(\<And>x. x \<in> set xs \<Longrightarrow> \<exists>y. f x = Inr y) \<Longrightarrow> \<exists>ys. map_err f xs = Inr ys"
proof (induction xs)
  case Nil
  then show ?case by simp
next
  case (Cons x xs)
  then obtain y ys where "f x = Inr y" "map_err f xs = Inr ys" by (meson list.set_intros)
  then show ?case by simp
qed

lemma fillna0_astype_int_rows:
  assumes "fillna0_astype_int c f = Inr f'"
  shows "fcolumns f' = fcolumns f \<and> list_all2 (filled c) (frows f) (frows f')"
proof -
  from assms obtain rs where
    rs: "list_all2 (\<lambda>r r'. (if r c = VNull then Inr (r(c := VInt 0))
           else and_then (py_int (r c)) (\<lambda>n. Inr (r(c := VInt n)))) = Inr r') (frows f) rs"
    and f': "f' = f\<lparr>frows := rs\<rparr>"
    by (auto simp: fillna0_astype_int_def and_then_Inr_iff map_err_Inr_iff)
  have "list_all2 (filled c) (frows f) rs"
    using rs
  proof (rule list_all2_mono)
    fix r r'
    assume "(if r c = VNull then Inr (r(c := VInt 0))
           else and_then (py_int (r c)) (\<lambda>n. Inr (r(c := VInt n)))) = Inr r'"
    then show "filled c r r'"
      by (auto simp: filled_def and_then_Inr_iff py_int_def split: if_splits)
  qed
  with f' show ?thesis by simp
qed

lemma filled_then_cols:
  assumes "filled c r r1" "filled_cols cs r1 r'"
  shows "filled_cols (c # cs) r r'"
proof -
  from assms(1) obtain n where r1: "r1 = r(c := VInt n)"
    and n0: "r c = VNull \<longrightarrow> n = 0" and nk: "\<forall>k. r c = VInt k \<longrightarrow> n = k"
    by (auto simp: filled_def)
  have other: "\<And>d. d \<noteq> c \<Longrightarrow> r1 d = r d" using r1 by simp
  have "\<forall>d. d \<notin> set (c # cs) \<longrightarrow> r' d = r d"
    using assms(2) other by (auto simp: filled_cols_def)
  moreover have "\<forall>d \<in> set (c # cs). \<exists>m. r' d = VInt m \<and> (r d = VNull \<longrightarrow> m = 0) \<and> (\<forall>k. r d = VInt k \<longrightarrow> m = k)"
  proof
    fix d assume d: "d \<in> set (c # cs)"
    show "\<exists>m. r' d = VInt m \<and> (r d = VNull \<longrightarrow> m = 0) \<and> (\<forall>k. r d = VInt k \<longrightarrow> m = k)"
    proof (cases "d = c")
      case True
      have r1c: "r1 c = VInt n" using r1 by simp
      show ?thesis
      proof (cases "c \<in> set cs")
        case True
        with assms(2) obtain m where "r' c = VInt m" "\<forall>k. r1 c = VInt k \<longrightarrow> m = k"
          by (auto simp: filled_cols_def)
        with r1c have "r' c = VInt n" by simp
        with \<open>d = c\<close> n0 nk show ?thesis by simp
      next
        case False
        with assms(2) have "r' c = r1 c" by (simp add: filled_cols_def)
        with r1c \<open>d = c\<close> n0 nk show ?thesis by simp
      qed
    next
      case False
      with d have "d \<in> set cs" by simp
      with assms(2) obtain m where "r' d = VInt m" "r1 d = VNull \<longrightarrow> m = 0" "\<forall>k. r1 d = VInt k \<longrightarrow> m = k"
        by (auto simp: filled_cols_def)
      with other [OF False] show ?thesis by simp
    qed
  qed
  ultimately show ?thesis by (simp add: filled_cols_def)
qed

lemma fillna0_astype_int_cols_rows:
  "fillna0_astype_int_cols cs f = Inr f' \<Longrightarrow>
   fcolumns f' = fcolumns f \<and> list_all2 (filled_cols cs) (frows f) (frows f')"
proof (induction cs arbitrary: f)
  case Nil
  then show ?case by (simp add: filled_cols_def list_all2_same)
next
  case (Cons c cs)
  from Cons.prems obtain f1 where f1: "fillna0_astype_int c f = Inr f1"
    and rest: "fillna0_astype_int_cols cs f1 = Inr f'"
    by (auto simp: and_then_Inr_iff)
  from fillna0_astype_int_rows [OF f1] have c1: "fcolumns f1 = fcolumns f"
    and r1: "list_all2 (filled c) (frows f) (frows f1)" by simp_all
  from Cons.IH [OF rest] have c2: "fcolumns f' = fcolumns f1"
    and r2: "list_all2 (filled_cols cs) (frows f1) (frows f')" by simp_all
  have "list_all2 (filled_cols (c # cs)) (frows f) (frows f')"
    using filled_then_cols r1 r2 by (rule list_all2_trans)
  with c1 c2 show ?case by simp
qed


lemma merge_left_Inr:
  assumes "merge_left l r key = Inr m"
  shows "fcolumns m = fcolumns l @ filter (\<lambda>c. c \<noteq> key) (fcolumns r)
    \<and> set (filter (\<lambda>c. c \<noteq> key) (fcolumns r)) \<inter> set (fcolumns l) = {}
    \<and> has_col l key
    \<and> (\<forall>x \<in> set (frows m). \<exists>lr \<in> set (frows l).
          (\<forall>c. c \<notin> set (filter (\<lambda>c. c \<noteq> key) (fcolumns r)) \<longrightarrow> x c = lr c) \<and>
          ((\<exists>rr \<in> set (frows r). rr key = lr key
              \<and> (\<forall>c \<in> set (filter (\<lambda>c. c \<noteq> key) (fcolumns r)). x c = rr c)) \<or>
           ((\<forall>rr \<in> set (frows r). rr key \<noteq> lr key)
              \<and> (\<forall>c \<in> set (filter (\<lambda>c. c \<noteq> key) (fcolumns r)). x c = VNull))))"
proof -
  let ?rcols = "filter (\<lambda>c. c \<noteq> key) (fcolumns r)"
  let ?g = "\<lambda>lr. (case filter (\<lambda>rr. rr key = lr key) (frows r) of
                  [] \<Rightarrow> [\<lambda>c. if c \<in> set ?rcols then VNull else lr c]
                | m # ms \<Rightarrow> map (\<lambda>rr. (\<lambda>c. if c \<in> set ?rcols then rr c else lr c)) (m # ms))"
  from assms have k: "has_col l key" "has_col r key"
    and ov: "\<not> list_ex (\<lambda>c. has_col l c) ?rcols"
    and m: "m = \<lparr>fcolumns = fcolumns l @ ?rcols, frows = concat (map ?g (frows l))\<rparr>"
    by (auto simp: merge_left_def Let_def split: if_splits)
  have disj: "set ?rcols \<inter> set (fcolumns l) = {}"
    using ov by (auto simp: list_ex_iff has_col_def)
  have rows: "\<forall>x \<in> set (frows m). \<exists>lr \<in> set (frows l).
          (\<forall>c. c \<notin> set ?rcols \<longrightarrow> x c = lr c) \<and>
          ((\<exists>rr \<in> set (frows r). rr key = lr key \<and> (\<forall>c \<in> set ?rcols. x c = rr c)) \<or>
           ((\<forall>rr \<in> set (frows r). rr key \<noteq> lr key) \<and> (\<forall>c \<in> set ?rcols. x c = VNull)))"
  proof
    fix x assume "x \<in> set (frows m)"
    with m obtain lr where lr: "lr \<in> set (frows l)" and x: "x \<in> set (?g lr)" by auto
    show "\<exists>lr \<in> set (frows l).
          (\<forall>c. c \<notin> set ?rcols \<longrightarrow> x c = lr c) \<and>
          ((\<exists>rr \<in> set (frows r). rr key = lr key \<and> (\<forall>c \<in> set ?rcols. x c = rr c)) \<or>
           ((\<forall>rr \<in> set (frows r). rr key \<noteq> lr key) \<and> (\<forall>c \<in> set ?rcols. x c = VNull)))"
    proof (cases "filter (\<lambda>rr. rr key = lr key) (frows r)")
      case Nil
      then have none: "\<forall>rr \<in> set (frows r). rr key \<noteq> lr key" by (simp add: filter_empty_conv)
      from Nil x have "x = (\<lambda>c. if c \<in> set ?rcols then VNull else lr c)" by simp
      with none lr show ?thesis by (intro bexI [of _ lr]) auto
    next
      case (Cons a as)
      with x obtain rr where rr: "rr \<in> set (filter (\<lambda>rr. rr key = lr key) (frows r))"
        and xe: "x = (\<lambda>c. if c \<in> set ?rcols then rr c else lr c)" by auto
      from rr have "rr \<in> set (frows r)" "rr key = lr key" by simp_all
      with xe lr show ?thesis by (intro bexI [of _ lr]) auto
    qed
  qed
  from m disj k rows show ?thesis by simp
qed

lemma group_sum_none:
  "\<forall>r \<in> set rs. r ''polling_unit_uniqueid'' \<noteq> VInt i \<Longrightarrow> group_sum rs i p = 0"
proof -
  assume "\<forall>r \<in> set rs. r ''polling_unit_uniqueid'' \<noteq> VInt i"
  then have "filter (\<lambda>r. r ''polling_unit_uniqueid'' = VInt i \<and> r ''party_abbreviation'' = VStr p) rs = []"
    by (simp add: filter_empty_conv)
  then show ?thesis by (simp add: group_sum_def)
qed

lemma group_sum_filter:
  "group_sum (filter (\<lambda>r. r ''polling_unit_uniqueid'' \<noteq> VNull \<and> r ''party_abbreviation'' \<noteq> VNull) xs) i p
   = group_sum xs i p"
proof -
  have "filter (\<lambda>r. r ''polling_unit_uniqueid'' = VInt i \<and> r ''party_abbreviation'' = VStr p)
          (filter (\<lambda>r. r ''polling_unit_uniqueid'' \<noteq> VNull \<and> r ''party_abbreviation'' \<noteq> VNull) xs)
        = filter (\<lambda>r. r ''polling_unit_uniqueid'' = VInt i \<and> r ''party_abbreviation'' = VStr p) xs"
    by (induction xs) auto
  then show ?thesis by (simp add: group_sum_def)
qed

lemma is_int_val: "is_int v \<Longrightarrow> v = VInt (int_val v)"
  by (cases v) simp_all

lemma is_str_val: "is_str v \<Longrightarrow> v = VStr (str_val v)"
  by (cases v) simp_all

lemma pivot_table_Inr:
  assumes "pivot_table f = Inr pv"
  shows "\<exists>parties. fcolumns pv = ''polling_unit_uniqueid'' # parties
     \<and> distinct parties \<and> ''polling_unit_uniqueid'' \<notin> set parties
     \<and> (\<forall>p \<in> set parties. \<exists>r \<in> set (frows f). r ''party_abbreviation'' = VStr p)
     \<and> (\<forall>m \<in> set (frows pv). \<exists>i. m ''polling_unit_uniqueid'' = VInt i
            \<and> (\<forall>p \<in> set parties. m p = VInt (group_sum (frows f) i p)))
     \<and> (\<forall>i. (\<forall>m \<in> set (frows pv). m ''polling_unit_uniqueid'' \<noteq> VInt i)
            \<longrightarrow> (\<forall>p. group_sum (frows f) i p = 0))"
proof -
  let ?rs = "filter (\<lambda>r. r ''polling_unit_uniqueid'' \<noteq> VNull
                         \<and> r ''party_abbreviation'' \<noteq> VNull) (frows f)"
  let ?ids = "sort (remdups (map (\<lambda>r. int_val (r ''polling_unit_uniqueid'')) ?rs))"
  let ?parties = "sort (remdups (map (\<lambda>r. str_val (r ''party_abbreviation'')) ?rs))"
  from assms have ints: "list_all (\<lambda>r. is_int (r ''polling_unit_uniqueid'')
                                    \<and> exact_int (r ''polling_unit_uniqueid'')) ?rs"
    and strs: "list_all (\<lambda>r. is_str (r ''party_abbreviation'')) ?rs"
    and nid: "''polling_unit_uniqueid'' \<notin> set ?parties"
    and pv: "pv = \<lparr>fcolumns = ''polling_unit_uniqueid'' # ?parties,
                 frows = map (\<lambda>i. (\<lambda>c. if c = ''polling_unit_uniqueid'' then VInt i
                                        else if c \<in> set ?parties then VInt (group_sum ?rs i c)
                                        else VNull)) ?ids\<rparr>"
    by (auto simp: pivot_table_def Let_def split: list.splits if_splits)
  have d: "distinct ?parties" by simp
  have obs: "\<forall>p \<in> set ?parties. \<exists>r \<in> set (frows f). r ''party_abbreviation'' = VStr p"
  proof
    fix p assume "p \<in> set ?parties"
    then obtain r where r: "r \<in> set ?rs" and p: "p = str_val (r ''party_abbreviation'')" by auto
    from r strs have "is_str (r ''party_abbreviation'')" by (simp add: list_all_iff)
    then have "r ''party_abbreviation'' = VStr p" using p is_str_val by simp
    with r show "\<exists>r \<in> set (frows f). r ''party_abbreviation'' = VStr p" by auto
  qed
  have cells: "\<forall>m \<in> set (frows pv). \<exists>i. m ''polling_unit_uniqueid'' = VInt i
            \<and> (\<forall>p \<in> set ?parties. m p = VInt (group_sum (frows f) i p))"
  proof
    fix m assume "m \<in> set (frows pv)"
    then obtain i where m: "m = (\<lambda>c. if c = ''polling_unit_uniqueid'' then VInt i
                                        else if c \<in> set ?parties then VInt (group_sum ?rs i c)
                                        else VNull)"
      unfolding pv by auto
    have "m ''polling_unit_uniqueid'' = VInt i" by (simp add: m)
    moreover have "\<forall>p \<in> set ?parties. m p = VInt (group_sum (frows f) i p)"
    proof
      fix p assume p: "p \<in> set ?parties"
      with nid have "p \<noteq> ''polling_unit_uniqueid''" by blast
      with p show "m p = VInt (group_sum (frows f) i p)"
        unfolding m by (simp only: if_False if_True group_sum_filter)
    qed
    ultimately show "\<exists>i. m ''polling_unit_uniqueid'' = VInt i
            \<and> (\<forall>p \<in> set ?parties. m p = VInt (group_sum (frows f) i p))" by blast
  qed
  have none: "\<forall>i. (\<forall>m \<in> set (frows pv). m ''polling_unit_uniqueid'' \<noteq> VInt i)
            \<longrightarrow> (\<forall>p. group_sum (frows f) i p = 0)"
  proof (intro allI impI)
    fix i p
    assume no: "\<forall>m \<in> set (frows pv). m ''polling_unit_uniqueid'' \<noteq> VInt i"
    then have ni: "i \<notin> set ?ids" by (auto simp: pv)
    have "\<forall>r \<in> set ?rs. r ''polling_unit_uniqueid'' \<noteq> VInt i"
    proof
      fix r assume r: "r \<in> set ?rs"
      show "r ''polling_unit_uniqueid'' \<noteq> VInt i"
      proof
        assume "r ''polling_unit_uniqueid'' = VInt i"
        then have "int_val (r ''polling_unit_uniqueid'') = i" by simp
        with r have "i \<in> set ?ids" by force
        with ni show False by simp
      qed
    qed
    then have "group_sum ?rs i p = 0" by (rule group_sum_none)
    then show "group_sum (frows f) i p = 0" by (simp add: group_sum_filter)
  qed
  from pv d nid obs cells none show ?thesis by auto
qed

lemma coerce_ids_Inr:
  assumes "coerce_ids f = Inr f1"
  shows "fcolumns f1 = fcolumns f \<and> has_col f ''polling_unit_uniqueid''
    \<and> list_all2 (\<lambda>a a'. (\<forall>c. c \<noteq> ''polling_unit_uniqueid'' \<longrightarrow> a' c = a c)
          \<and> (\<forall>i. a' ''polling_unit_uniqueid'' = VInt i
                  \<longleftrightarrow> py_int (a ''polling_unit_uniqueid'') = Inr i)) (frows f) (frows f1)"
proof -
  let ?vs = "column f ''polling_unit_uniqueid''"
  let ?none = "\<lambda>v. v = VNull \<and> (list_ex is_str ?vs \<or> list_all (\<lambda>w. w = VNull) ?vs)"
  let ?step = "\<lambda>r. if ?none (r ''polling_unit_uniqueid'') then Inr r
                     else and_then (py_int (r ''polling_unit_uniqueid''))
                            (\<lambda>n. Inr (r(''polling_unit_uniqueid'' := VInt n)))"
  from assms have h: "has_col f ''polling_unit_uniqueid''"
    by (auto simp: coerce_ids_def split: if_splits)
  with assms obtain rs where rs: "list_all2 (\<lambda>r r'. ?step r = Inr r') (frows f) rs"
    and f1: "f1 = f\<lparr>frows := rs\<rparr>"
    by (auto simp: coerce_ids_def Let_def and_then_Inr_iff map_err_Inr_iff)
  have "list_all2 (\<lambda>a a'. (\<forall>c. c \<noteq> ''polling_unit_uniqueid'' \<longrightarrow> a' c = a c)
          \<and> (\<forall>i. a' ''polling_unit_uniqueid'' = VInt i
                  \<longleftrightarrow> py_int (a ''polling_unit_uniqueid'') = Inr i)) (frows f) rs"
    using rs
  proof (rule list_all2_mono)
    fix a a'
    assume st: "?step a = Inr a'"
    show "(\<forall>c. c \<noteq> ''polling_unit_uniqueid'' \<longrightarrow> a' c = a c)
          \<and> (\<forall>i. a' ''polling_unit_uniqueid'' = VInt i
                  \<longleftrightarrow> py_int (a ''polling_unit_uniqueid'') = Inr i)"
    proof (cases "?none (a ''polling_unit_uniqueid'')")
      case True
      with st have "a' = a" by simp
      moreover from True have "a ''polling_unit_uniqueid'' = VNull" by simp
      ultimately show ?thesis by (simp add: py_int_def)
    next
      case False
      with st obtain n where "py_int (a ''polling_unit_uniqueid'') = Inr n"
        "a' = a(''polling_unit_uniqueid'' := VInt n)"
        by (auto simp: and_then_Inr_iff)
      then show ?thesis by auto
    qed
  qed
  with f1 h show ?thesis by simp
qed

lemma group_sum_coerced:
  assumes "list_all2 (\<lambda>a a'. (\<forall>c. c \<noteq> ''polling_unit_uniqueid'' \<longrightarrow> a' c = a c)
          \<and> (\<forall>i. a' ''polling_unit_uniqueid'' = VInt i
                  \<longleftrightarrow> py_int (a ''polling_unit_uniqueid'') = Inr i)) xs xs'"
  shows "group_sum xs' i p =
     sum_list (map (\<lambda>a. int_val (a ''party_score''))
       (filter (\<lambda>a. py_int (a ''polling_unit_uniqueid'') = Inr i
                   \<and> a ''party_abbreviation'' = VStr p) xs))"
  using assms
proof (induction xs xs' rule: list_all2_induct)
  case Nil
  then show ?case by (simp add: group_sum_def)
next
  case (Cons a xs a' xs')
  have 1: "a' ''party_score'' = a ''party_score''" "a' ''party_abbreviation'' = a ''party_abbreviation''"
    using Cons.hyps(1) by simp_all
  have 2: "a' ''polling_unit_uniqueid'' = VInt i \<longleftrightarrow> py_int (a ''polling_unit_uniqueid'') = Inr i"
    using Cons.hyps(1) by simp
  show ?case using Cons.IH 1 2 by (simp add: group_sum_def)
qed


lemma merge_left_keeps:
  assumes "merge_left l r key = Inr m"
  shows "set (fcolumns l) \<subseteq> set (fcolumns m)
     \<and> (\<forall>x \<in> set (frows m). \<exists>lr \<in> set (frows l). \<forall>c \<in> set (fcolumns l). x c = lr c)"
proof -
  let ?rcols = "filter (\<lambda>c. c \<noteq> key) (fcolumns r)"
  from merge_left_Inr [OF assms] have cols: "fcolumns m = fcolumns l @ ?rcols"
    and disj: "set ?rcols \<inter> set (fcolumns l) = {}"
    and rows: "\<forall>x \<in> set (frows m). \<exists>lr \<in> set (frows l). (\<forall>c. c \<notin> set ?rcols \<longrightarrow> x c = lr c)"
    by blast+
  have "\<forall>x \<in> set (frows m). \<exists>lr \<in> set (frows l). \<forall>c \<in> set (fcolumns l). x c = lr c"
  proof
    fix x assume "x \<in> set (frows m)"
    with rows obtain lr where lr: "lr \<in> set (frows l)" and eq: "\<forall>c. c \<notin> set ?rcols \<longrightarrow> x c = lr c"
      by blast
    have "\<forall>c \<in> set (fcolumns l). x c = lr c" using eq disj by blast
    with lr show "\<exists>lr \<in> set (frows l). \<forall>c \<in> set (fcolumns l). x c = lr c" by blast
  qed
  with cols show ?thesis by auto
qed

lemma party_rows_merge:
  assumes "party_rows announced parties l" "merge_left l r key = Inr m"
  shows "party_rows announced parties m"
proof -
  from assms(1) have idc: "''polling_unit_uniqueid'' \<in> set (fcolumns l)"
    and pc: "set parties \<subseteq> set (fcolumns l)"
    and cells: "\<forall>x \<in> set (frows l). \<forall>p \<in> set parties. party_cell announced x p"
    by (simp_all add: party_rows_def)
  from merge_left_keeps [OF assms(2)] have sub: "set (fcolumns l) \<subseteq> set (fcolumns m)"
    and rows: "\<forall>x \<in> set (frows m). \<exists>lr \<in> set (frows l). \<forall>c \<in> set (fcolumns l). x c = lr c"
    by simp_all
  have "\<forall>x \<in> set (frows m). \<forall>p \<in> set parties. party_cell announced x p"
  proof (intro ballI)
    fix x p assume x: "x \<in> set (frows m)" and p: "p \<in> set parties"
    from rows x obtain lr where lr: "lr \<in> set (frows l)"
      and eq: "\<forall>c \<in> set (fcolumns l). x c = lr c" by blast
    from eq idc have 1: "x ''polling_unit_uniqueid'' = lr ''polling_unit_uniqueid''" by blast
    from eq pc p have 2: "x p = lr p" by blast
    from cells lr p have "party_cell announced lr p" by blast
    then show "party_cell announced x p" by (simp add: party_cell_def 1 2)
  qed
  with idc pc sub show ?thesis by (auto simp: party_rows_def)
qed

lemma party_rows_optional_merge:
  assumes "party_rows announced parties l"
    and "(if cond then and_then (select_cols cs r) (\<lambda>w. merge_left l w key) else Inr l) = Inr m"
  shows "party_rows announced parties m"
proof (cases cond)
  case True
  with assms(2) obtain w where "merge_left l w key = Inr m"
    by (auto simp: and_then_Inr_iff)
  with assms(1) show ?thesis by (rule party_rows_merge)
next
  case False
  with assms show ?thesis by simp
qed

lemma select_cols_Inr:
  "select_cols cs f = Inr g \<longleftrightarrow> (set cs \<subseteq> set (fcolumns f) \<and> g = f\<lparr>fcolumns := cs\<rparr>)"
proof (cases "filter (\<lambda>c. \<not> has_col f c) cs")
  case Nil
  then have "set cs \<subseteq> set (fcolumns f)" by (auto simp: filter_empty_conv has_col_def)
  with Nil show ?thesis by (auto simp: select_cols_def)
next
  case (Cons a as)
  then have "a \<in> set (filter (\<lambda>c. \<not> has_col f c) cs)" by simp
  then have "\<not> set cs \<subseteq> set (fcolumns f)" by (auto simp: has_col_def)
  with Cons show ?thesis by (simp add: select_cols_def)
qed

lemma optional_merge_columns:
  assumes "(if cond then and_then (select_cols cs r) (\<lambda>w. merge_left l w key) else Inr l) = Inr m"
  shows "set (fcolumns m) \<subseteq> set (fcolumns l) \<union> (if cond then set cs else {})"
proof (cases cond)
  case True
  with assms obtain w where w: "select_cols cs r = Inr w" and m: "merge_left l w key = Inr m"
    by (auto simp: and_then_Inr_iff)
  from w have "fcolumns w = cs" by (auto simp: select_cols_Inr)
  with merge_left_Inr [OF m] True show ?thesis by auto
next
  case False
  with assms show ?thesis by simp
qed

lemma rename_col_Inr:
  assumes "rename_col old new f = Inr g"
  shows "set (fcolumns g) \<subseteq> insert new (set (fcolumns f))
     \<and> length (frows g) = length (frows f)"
  using assms by (auto simp: rename_col_def split: if_splits)


section \<open>The steps of the assembler\<close>

lemma assemble_steps:
  assumes "assemble pu ward lga announced mapping = Inr df"
  obtains pv m1 m2 m3 sm where
    "\<not> is_empty pu" "\<not> is_empty announced"
    "pivot_and_merge pu announced = Inr (pv, m1)"
    "merge_ward ward m1 = Inr m2"
    "merge_lga lga m2 = Inr m3"
    "mapping = Inr sm"
    "order_and_fill pv (attach_state_name sm m3) = Inr df"
proof -
  from assms have ne: "\<not> is_empty pu" "\<not> is_empty announced"
    by (auto simp: assemble_def split: if_splits)
  with assms obtain pm where pm: "pivot_and_merge pu announced = Inr pm"
    and r1: "(case pm of (party_pivot, merged1) \<Rightarrow>
        and_then (merge_ward ward merged1) (\<lambda>merged2.
        and_then (merge_lga lga merged2) (\<lambda>merged3.
        and_then mapping (\<lambda>state_mapping.
          order_and_fill party_pivot (attach_state_name state_mapping merged3))))) = Inr df"
    by (auto simp: assemble_def and_then_Inr_iff)
  obtain pv m1 where pm2: "pm = (pv, m1)" by (cases pm)
  from r1 pm2 obtain m2 m3 sm where "merge_ward ward m1 = Inr m2" "merge_lga lga m2 = Inr m3"
    "mapping = Inr sm" "order_and_fill pv (attach_state_name sm m3) = Inr df"
    by (auto simp: and_then_Inr_iff)
  with ne pm pm2 show ?thesis by (intro that) simp_all
qed

lemma pivot_and_merge_steps:
  assumes "pivot_and_merge pu announced = Inr (pv, m1)"
  obtains a1 pu1 where
    "coerce_ids announced = Inr a1"
    "pivot_table a1 = Inr pv"
    "\<not> list_ex (\<lambda>c. c \<in> set known) (tl (fcolumns pv))"
    "rename_col ''uniqueid'' ''polling_unit_uniqueid'' pu = Inr pu1"
    "merge_left pu1 pv ''polling_unit_uniqueid'' = Inr m1"
proof -
  from assms obtain a1 pv' pu1 where a1: "coerce_ids announced = Inr a1"
    and pv: "pivot_table a1 = Inr pv'"
    and g: "(if list_ex (\<lambda>c. c \<in> set known) (tl (fcolumns pv'))
               then Inl (Unmodelled ''party labelled as a hierarchy column'')
               else rename_col ''uniqueid'' ''polling_unit_uniqueid'' pu) = Inr pu1"
    and m: "and_then (merge_left pu1 pv' ''polling_unit_uniqueid'') (\<lambda>merged. Inr (pv', merged))
              = Inr (pv, m1)"
    unfolding pivot_and_merge_def and_then_Inr_iff [of "coerce_ids _"]
      and_then_Inr_iff [of "pivot_table _"] and_then_Inr_iff [of "if _ then _ else _"]
    by blast
  from m have eq: "pv' = pv" and m1: "merge_left pu1 pv ''polling_unit_uniqueid'' = Inr m1"
    by (auto simp: and_then_Inr_iff)
  from g have "\<not> list_ex (\<lambda>c. c \<in> set known) (tl (fcolumns pv'))"
    "rename_col ''uniqueid'' ''polling_unit_uniqueid'' pu = Inr pu1"
    by (auto split: if_splits)
  with a1 pv eq m1 show ?thesis by (intro that [of a1 pu1]) simp_all
qed


lemma list_all2_rev_witness:
  "list_all2 P xs ys \<Longrightarrow> y \<in> set ys \<Longrightarrow> \<exists>x \<in> set xs. P x y"
  by (induction xs ys rule: list_all2_induct) auto

lemma list_all2_witness:
  "list_all2 P xs ys \<Longrightarrow> x \<in> set xs \<Longrightarrow> \<exists>y \<in> set ys. P x y"
  by (induction xs ys rule: list_all2_induct) auto

lemma party_rows_set_col:
  assumes "party_rows announced parties f" "c \<notin> set parties" "c \<noteq> ''polling_unit_uniqueid''"
  shows "party_rows announced parties (set_col c g f)"
proof -
  have "\<forall>x \<in> set (frows (set_col c g f)). \<forall>p \<in> set parties. party_cell announced x p"
  proof (intro ballI)
    fix x p assume x: "x \<in> set (frows (set_col c g f))" and p: "p \<in> set parties"
    then obtain r where r: "r \<in> set (frows f)" and xr: "x = r(c := g r)"
      by (auto simp: set_col_def)
    from p assms(2) have "p \<noteq> c" by blast
    with xr assms(3) have "x p = r p" "x ''polling_unit_uniqueid'' = r ''polling_unit_uniqueid''"
      by simp_all
    moreover from assms(1) r p have "party_cell announced r p" by (simp add: party_rows_def)
    ultimately show "party_cell announced x p" by (simp add: party_cell_def)
  qed
  moreover have "set (fcolumns f) \<subseteq> set (fcolumns (set_col c g f))"
    by (auto simp: set_col_def)
  ultimately show ?thesis using assms(1) by (auto simp: party_rows_def)
qed

lemma pivot_and_merge_party_rows:
  assumes "pivot_and_merge pu announced = Inr (pv, m1)"
  shows "\<exists>parties. fcolumns pv = ''polling_unit_uniqueid'' # parties
     \<and> ''polling_unit_uniqueid'' \<notin> set parties \<and> set parties \<inter> set known = {}
     \<and> (\<forall>p \<in> set parties. \<exists>a \<in> set (frows announced). a ''party_abbreviation'' = VStr p)
     \<and> party_rows announced parties m1"
proof -
  from assms obtain a1 pu1 where a1: "coerce_ids announced = Inr a1"
    and pv: "pivot_table a1 = Inr pv"
    and g: "\<not> list_ex (\<lambda>c. c \<in> set known) (tl (fcolumns pv))"
    and m1: "merge_left pu1 pv ''polling_unit_uniqueid'' = Inr m1"
    by (rule pivot_and_merge_steps)
  from coerce_ids_Inr [OF a1] have rel:
    "list_all2 (\<lambda>a a'. (\<forall>c. c \<noteq> ''polling_unit_uniqueid'' \<longrightarrow> a' c = a c)
          \<and> (\<forall>i. a' ''polling_unit_uniqueid'' = VInt i
                  \<longleftrightarrow> py_int (a ''polling_unit_uniqueid'') = Inr i)) (frows announced) (frows a1)"
    by simp
  have gs: "\<And>i p. group_sum (frows a1) i p = tally_sum announced i p"
    using group_sum_coerced [OF rel] by (simp add: tally_sum_def)
  from pivot_table_Inr [OF pv] obtain parties where
    cols: "fcolumns pv = ''polling_unit_uniqueid'' # parties"
    and nid: "''polling_unit_uniqueid'' \<notin> set parties"
    and obs1: "\<forall>p \<in> set parties. \<exists>r \<in> set (frows a1). r ''party_abbreviation'' = VStr p"
    and cells: "\<forall>m \<in> set (frows pv). \<exists>i. m ''polling_unit_uniqueid'' = VInt i
            \<and> (\<forall>p \<in> set parties. m p = VInt (tally_sum announced i p))"
    and none: "\<forall>i. (\<forall>m \<in> set (frows pv). m ''polling_unit_uniqueid'' \<noteq> VInt i)
            \<longrightarrow> (\<forall>p. tally_sum announced i p = 0)"
    unfolding gs by blast
  have kn: "set parties \<inter> set known = {}"
    using g cols by (auto simp: list_ex_iff)
  have obs: "\<forall>p \<in> set parties. \<exists>a \<in> set (frows announced). a ''party_abbreviation'' = VStr p"
  proof
    fix p assume "p \<in> set parties"
    with obs1 obtain r where r: "r \<in> set (frows a1)" and rp: "r ''party_abbreviation'' = VStr p"
      by blast
    from list_all2_rev_witness [OF rel r] obtain a where a: "a \<in> set (frows announced)"
      and "\<forall>c. c \<noteq> ''polling_unit_uniqueid'' \<longrightarrow> r c = a c" by blast
    then have "r ''party_abbreviation'' = a ''party_abbreviation''" by simp
    with rp a show "\<exists>a \<in> set (frows announced). a ''party_abbreviation'' = VStr p" by auto
  qed
  have rc: "filter (\<lambda>c. c \<noteq> ''polling_unit_uniqueid'') (fcolumns pv) = parties"
    using nid by (auto simp: cols filter_id_conv)
  from merge_left_Inr [OF m1] have mc: "fcolumns m1 = fcolumns pu1 @ parties"
    and hk: "has_col pu1 ''polling_unit_uniqueid''"
    and rows: "\<forall>x \<in> set (frows m1). \<exists>lr \<in> set (frows pu1).
          (\<forall>c. c \<notin> set parties \<longrightarrow> x c = lr c) \<and>
          ((\<exists>rr \<in> set (frows pv). rr ''polling_unit_uniqueid'' = lr ''polling_unit_uniqueid''
              \<and> (\<forall>c \<in> set parties. x c = rr c)) \<or>
           ((\<forall>rr \<in> set (frows pv). rr ''polling_unit_uniqueid'' \<noteq> lr ''polling_unit_uniqueid'')
              \<and> (\<forall>c \<in> set parties. x c = VNull)))"
    unfolding rc by blast+
  have pc: "\<forall>x \<in> set (frows m1). \<forall>p \<in> set parties. party_cell announced x p"
  proof (intro ballI)
    fix x p assume x: "x \<in> set (frows m1)" and p: "p \<in> set parties"
    from rows x obtain lr where
      same: "\<forall>c. c \<notin> set parties \<longrightarrow> x c = lr c"
      and alt: "(\<exists>rr \<in> set (frows pv). rr ''polling_unit_uniqueid'' = lr ''polling_unit_uniqueid''
              \<and> (\<forall>c \<in> set parties. x c = rr c)) \<or>
           ((\<forall>rr \<in> set (frows pv). rr ''polling_unit_uniqueid'' \<noteq> lr ''polling_unit_uniqueid'')
              \<and> (\<forall>c \<in> set parties. x c = VNull))"
      by blast
    from same nid have xid: "x ''polling_unit_uniqueid'' = lr ''polling_unit_uniqueid''" by blast
    from alt show "party_cell announced x p"
    proof
      assume "\<exists>rr \<in> set (frows pv). rr ''polling_unit_uniqueid'' = lr ''polling_unit_uniqueid''
              \<and> (\<forall>c \<in> set parties. x c = rr c)"
      then obtain rr where rr: "rr \<in> set (frows pv)"
        and k: "rr ''polling_unit_uniqueid'' = lr ''polling_unit_uniqueid''"
        and v: "\<forall>c \<in> set parties. x c = rr c" by blast
      from cells rr obtain i where ri: "rr ''polling_unit_uniqueid'' = VInt i"
        and rp: "\<forall>p \<in> set parties. rr p = VInt (tally_sum announced i p)" by blast
      from ri k xid have "x ''polling_unit_uniqueid'' = VInt i" by simp
      moreover from v rp p have "x p = VInt (tally_sum announced i p)" by simp
      ultimately show ?thesis unfolding party_cell_def by blast
    next
      assume no: "(\<forall>rr \<in> set (frows pv). rr ''polling_unit_uniqueid'' \<noteq> lr ''polling_unit_uniqueid'')
              \<and> (\<forall>c \<in> set parties. x c = VNull)"
      have "\<forall>i. x ''polling_unit_uniqueid'' = VInt i \<longrightarrow> tally_sum announced i p = 0"
      proof (intro allI impI)
        fix i assume "x ''polling_unit_uniqueid'' = VInt i"
        with no xid have "\<forall>m \<in> set (frows pv). m ''polling_unit_uniqueid'' \<noteq> VInt i" by auto
        with none show "tally_sum announced i p = 0" by blast
      qed
      with no p show ?thesis by (simp add: party_cell_def)
    qed
  qed
  have "party_rows announced parties m1"
    using hk pc by (auto simp: party_rows_def mc has_col_def)
  with cols nid kn obs show ?thesis by blast
qed

lemma order_and_fill_Inr:
  assumes "order_and_fill pv m = Inr df"
  shows "fcolumns df = filter (has_col m) known @ sort (party_columns_of pv m)
     \<and> list_all2 (filled_cols (party_columns_of pv m)) (frows m) (frows df)"
proof -
  from assms obtain f5 where s: "select_cols (filter (has_col m) known
          @ sort (party_columns_of pv m)) m = Inr f5"
    and f: "fillna0_astype_int_cols (party_columns_of pv m) f5 = Inr df"
    by (auto simp: order_and_fill_def and_then_Inr_iff)
  from s have f5: "f5 = m\<lparr>fcolumns := filter (has_col m) known @ sort (party_columns_of pv m)\<rparr>"
    by (simp add: select_cols_Inr)
  from fillna0_astype_int_cols_rows [OF f] f5 show ?thesis by simp
qed

lemma assemble_cells:
  assumes "assemble pu ward lga announced mapping = Inr df"
  shows "\<forall>x \<in> set (frows df). \<forall>c \<in> set (fcolumns df). c \<notin> set known \<longrightarrow>
            (\<exists>a \<in> set (frows announced). a ''party_abbreviation'' = VStr c) \<and>
            ((\<exists>i. x ''polling_unit_uniqueid'' = VInt i \<and> x c = VInt (tally_sum announced i c)) \<or>
             ((\<forall>i. x ''polling_unit_uniqueid'' \<noteq> VInt i) \<and> x c = VInt 0))"
proof -
  from assms obtain pv m1 m2 m3 sm where
    pm: "pivot_and_merge pu announced = Inr (pv, m1)"
    and m2: "merge_ward ward m1 = Inr m2"
    and m3: "merge_lga lga m2 = Inr m3"
    and fin: "order_and_fill pv (attach_state_name sm m3) = Inr df"
    by (rule assemble_steps)
  from pivot_and_merge_party_rows [OF pm] obtain parties where
    cols: "fcolumns pv = ''polling_unit_uniqueid'' # parties"
    and nid: "''polling_unit_uniqueid'' \<notin> set parties"
    and kn: "set parties \<inter> set known = {}"
    and obs: "\<forall>p \<in> set parties. \<exists>a \<in> set (frows announced). a ''party_abbreviation'' = VStr p"
    and pr1: "party_rows announced parties m1"
    by blast
  have pr2: "party_rows announced parties m2"
    using pr1 m2 unfolding merge_ward_def by (rule party_rows_optional_merge)
  have pr3: "party_rows announced parties m3"
    using pr2 m3 unfolding merge_lga_def by (rule party_rows_optional_merge)
  let ?m4 = "attach_state_name sm m3"
  have sn: "''state_name'' \<notin> set parties" using kn by (auto simp: known_def)
  have pr4: "party_rows announced parties ?m4"
    unfolding attach_state_name_def using pr3 sn by (intro party_rows_set_col) simp_all
  have pcs: "party_columns_of pv ?m4 = parties"
  proof -
    have "filter (\<lambda>c. c \<noteq> ''polling_unit_uniqueid'') (fcolumns pv) = parties"
      using nid by (auto simp: cols filter_id_conv)
    moreover have "\<forall>p \<in> set parties. has_col ?m4 p"
      using pr4 by (auto simp: party_rows_def has_col_def)
    ultimately show ?thesis by (simp add: party_columns_of_def filter_id_conv)
  qed
  from order_and_fill_Inr [OF fin] have
    dc: "fcolumns df = filter (has_col ?m4) known @ sort parties"
    and rel: "list_all2 (filled_cols parties) (frows ?m4) (frows df)"
    unfolding pcs by simp_all
  show ?thesis
  proof (intro ballI impI)
    fix x' c assume x': "x' \<in> set (frows df)" and c: "c \<in> set (fcolumns df)" and nk: "c \<notin> set known"
    from c nk dc have cp: "c \<in> set parties" by auto
    from list_all2_rev_witness [OF rel x'] obtain x where x: "x \<in> set (frows ?m4)"
      and fl: "filled_cols parties x x'" by blast
    from fl nid have xid: "x' ''polling_unit_uniqueid'' = x ''polling_unit_uniqueid''"
      by (simp add: filled_cols_def)
    from fl cp obtain n where n: "x' c = VInt n" and n0: "x c = VNull \<longrightarrow> n = 0"
      and nk': "\<forall>k. x c = VInt k \<longrightarrow> n = k"
      by (auto simp: filled_cols_def)
    from pr4 x cp have pc: "party_cell announced x c" by (simp add: party_rows_def)
    have "(\<exists>i. x' ''polling_unit_uniqueid'' = VInt i \<and> x' c = VInt (tally_sum announced i c)) \<or>
             ((\<forall>i. x' ''polling_unit_uniqueid'' \<noteq> VInt i) \<and> x' c = VInt 0)"
    proof (cases "\<exists>i. x ''polling_unit_uniqueid'' = VInt i")
      case True
      then obtain i where i: "x ''polling_unit_uniqueid'' = VInt i" by blast
      from pc i have "x c = VInt (tally_sum announced i c) \<or> (x c = VNull \<and> tally_sum announced i c = 0)"
        by (auto simp: party_cell_def)
      with n n0 nk' have "x' c = VInt (tally_sum announced i c)" by auto
      with i xid show ?thesis by auto
    next
      case False
      with pc have "x c = VNull" by (auto simp: party_cell_def)
      with n n0 False xid show ?thesis by auto
    qed
    with obs cp show "(\<exists>a \<in> set (frows announced). a ''party_abbreviation'' = VStr c) \<and>
            ((\<exists>i. x' ''polling_unit_uniqueid'' = VInt i \<and> x' c = VInt (tally_sum announced i c)) \<or>
             ((\<forall>i. x' ''polling_unit_uniqueid'' \<noteq> VInt i) \<and> x' c = VInt 0))" by blast
  qed
qed


section \<open>Result assembler: the pivot\<close>

lemma build_assemble:
  assumes "load_tables_from_sql sql_text
             [''polling_unit'', ''ward'', ''lga'', ''announced_pu_results''] = Inr tables"
  shows "build_polling_unit_results_df sql_text state_mapping =
     assemble (table_get tables ''polling_unit'') (table_get tables ''ward'')
       (table_get tables ''lga'') (table_get tables ''announced_pu_results'')
       (case state_mapping of
          None \<Rightarrow> load_state_mapping sql_text None None
        | Some sm \<Rightarrow> Inr sm)"
  unfolding build_polling_unit_results_df_def assms by (simp add: and_then_def)

lemma tally_sum_absent:
  assumes "\<forall>a \<in> set (frows announced).
             \<not> (py_int (a ''polling_unit_uniqueid'') = Inr i \<and> a ''party_abbreviation'' = VStr p)"
  shows "tally_sum announced i p = 0"
proof -
  have "filter (\<lambda>a. py_int (a ''polling_unit_uniqueid'') = Inr i
                   \<and> a ''party_abbreviation'' = VStr p) (frows announced) = []"
    using assms by (simp add: filter_empty_conv)
  then show ?thesis by (simp add: tally_sum_def)
qed

text \<open>
  C1. In the assembled table, the cell of a party column in the row of polling unit \<open>i\<close>
  is the sum of the scores of all the tally rows of unit \<open>i\<close> and that party (rows with the
  same pair add up; none overwrites another), and it is 0 when the tally has no row for
  the pair or the row has no identifier. Every party column is a party of the tally.
\<close>

theorem pivot_sums_scores:
  assumes "load_tables_from_sql sql_text
             [''polling_unit'', ''ward'', ''lga'', ''announced_pu_results''] = Inr tables"
    and "build_polling_unit_results_df sql_text state_mapping = Inr df"
    and "x \<in> set (frows df)" and "p \<in> set (fcolumns df)" and "p \<notin> set known"
  shows "(\<exists>a \<in> set (frows (table_get tables ''announced_pu_results'')).
            a ''party_abbreviation'' = VStr p)
     \<and> (\<forall>i. x ''polling_unit_uniqueid'' = VInt i \<longrightarrow>
            x p = VInt (tally_sum (table_get tables ''announced_pu_results'') i p))
     \<and> (\<forall>i. x ''polling_unit_uniqueid'' = VInt i \<and>
            (\<forall>a \<in> set (frows (table_get tables ''announced_pu_results'')).
               \<not> (py_int (a ''polling_unit_uniqueid'') = Inr i
                  \<and> a ''party_abbreviation'' = VStr p)) \<longrightarrow> x p = VInt 0)
     \<and> ((\<forall>i. x ''polling_unit_uniqueid'' \<noteq> VInt i) \<longrightarrow> x p = VInt 0)"
proof -
  let ?ann = "table_get tables ''announced_pu_results''"
  from assms(1,2) have "assemble (table_get tables ''polling_unit'') (table_get tables ''ward'')
       (table_get tables ''lga'') ?ann
       (case state_mapping of
          None \<Rightarrow> load_state_mapping sql_text None None
        | Some sm \<Rightarrow> Inr sm) = Inr df"
    by (simp add: build_assemble)
  from assemble_cells [OF this] assms(3,4,5) have
    obs: "\<exists>a \<in> set (frows ?ann). a ''party_abbreviation'' = VStr p"
    and cell: "(\<exists>i. x ''polling_unit_uniqueid'' = VInt i \<and> x p = VInt (tally_sum ?ann i p)) \<or>
             ((\<forall>i. x ''polling_unit_uniqueid'' \<noteq> VInt i) \<and> x p = VInt 0)"
    by blast+
  have 1: "\<forall>i. x ''polling_unit_uniqueid'' = VInt i \<longrightarrow> x p = VInt (tally_sum ?ann i p)"
    using cell by auto
  have 2: "\<forall>i. x ''polling_unit_uniqueid'' = VInt i \<and>
            (\<forall>a \<in> set (frows ?ann).
               \<not> (py_int (a ''polling_unit_uniqueid'') = Inr i
                  \<and> a ''party_abbreviation'' = VStr p)) \<longrightarrow> x p = VInt 0"
    using 1 tally_sum_absent [of ?ann _ p] by auto
  have 3: "(\<forall>i. x ''polling_unit_uniqueid'' \<noteq> VInt i) \<longrightarrow> x p = VInt 0"
    using cell by auto
  from obs 1 2 3 show ?thesis by blast
qed

theorem pivot_sums_scores_witness:
  "\<exists>df x y. build_polling_unit_results_df sample_dump None = Inr df
      \<and> frows df = [x, y]
      \<and> x ''polling_unit_uniqueid'' = VInt 7 \<and> x ''APC'' = VInt 150
      \<and> y ''polling_unit_uniqueid'' = VInt 8 \<and> y ''APC'' = VInt 0"
proof -
  have "and_then (build_polling_unit_results_df sample_dump None)
     (\<lambda>df. Inr (fcolumns df, map (\<lambda>r. r ''polling_unit_uniqueid'') (frows df)))
   = Inr ([''polling_unit_uniqueid'', ''state_name'', ''APC'', ''PDP''], [VInt 7, VInt 8])"
    unfolding build_polling_unit_results_df_def sample_dump_tables sample_dump_mapping
    by (simp add: frame_eval assembler_eval)
  then obtain df where b: "build_polling_unit_results_df sample_dump None = Inr df"
    and cols: "fcolumns df = [''polling_unit_uniqueid'', ''state_name'', ''APC'', ''PDP'']"
    and ids: "map (\<lambda>r. r ''polling_unit_uniqueid'') (frows df) = [VInt 7, VInt 8]"
    by (auto simp: and_then_Inr_iff)
  from ids obtain x y where rows: "frows df = [x, y]"
    and x: "x ''polling_unit_uniqueid'' = VInt 7" and y: "y ''polling_unit_uniqueid'' = VInt 8"
    by (auto simp: map_eq_Cons_conv)
  have p: "''APC'' \<in> set (fcolumns df)" "''APC'' \<notin> set known"
    by (simp_all add: cols known_def)
  let ?ann = "table_get
       [(''polling_unit'', DataFrame [[(''uniqueid'', VInt 7)], [(''uniqueid'', VInt 8)]]),
          (''ward'', empty_frame), (''lga'', empty_frame),
          (''announced_pu_results'', DataFrame
             [[(''polling_unit_uniqueid'', VInt 7), (''party_abbreviation'', VStr ''APC''), (''party_score'', VInt 120)],
              [(''polling_unit_uniqueid'', VInt 7), (''party_abbreviation'', VStr ''APC''), (''party_score'', VInt 30)],
              [(''polling_unit_uniqueid'', VInt 7), (''party_abbreviation'', VStr ''PDP''), (''party_score'', VInt 4)]])]
       ''announced_pu_results''"
  have t7: "tally_sum ?ann 7 ''APC'' = 150"
    by (simp add: tally_sum_def frame_eval)
  have t8: "tally_sum ?ann 8 ''APC'' = 0"
    by (simp add: tally_sum_def frame_eval)
  have "x \<in> set (frows df)" "y \<in> set (frows df)" by (simp_all add: rows)
  from pivot_sums_scores [OF sample_dump_tables b this(1) p]
       pivot_sums_scores [OF sample_dump_tables b this(2) p]
  have "x ''APC'' = VInt 150" "y ''APC'' = VInt 0"
    using x y t7 t8 by simp_all
  with b rows x y show ?thesis by blast
qed


section \<open>Party columns: integers, and their sign\<close>

lemma tally_sum_nonneg:
  assumes "\<forall>a \<in> set (frows announced). 0 \<le> int_val (a ''party_score'')"
  shows "0 \<le> tally_sum announced i p"
  unfolding tally_sum_def using assms by (intro sum_list_nonneg) auto

lemma assemble_party_cells:
  assumes "assemble pu ward lga announced mapping = Inr df"
  shows "party_cells (\<lambda>n. True) df"
    and "\<forall>a \<in> set (frows announced). 0 \<le> int_val (a ''party_score'')
         \<Longrightarrow> party_cells (\<lambda>n. 0 \<le> n) df"
proof -
  note cells = assemble_cells [OF assms]
  show "party_cells (\<lambda>n. True) df"
    unfolding party_cells_def using cells by blast
  assume nn: "\<forall>a \<in> set (frows announced). 0 \<le> int_val (a ''party_score'')"
  show "party_cells (\<lambda>n. 0 \<le> n) df"
    unfolding party_cells_def
  proof (intro ballI impI)
    fix x c assume "x \<in> set (frows df)" "c \<in> set (fcolumns df)" "c \<notin> set known"
    with cells have "(\<exists>i. x c = VInt (tally_sum announced i c)) \<or> x c = VInt 0" by blast
    then show "\<exists>n. x c = VInt n \<and> 0 \<le> n"
      using tally_sum_nonneg [OF nn] by auto
  qed
qed

lemma add_polling_unit_rows:
  assumes "add_polling_unit_to_df df pu_row = Inr df1"
  shows "fcolumns df1 = fcolumns df"
    and "\<forall>x' \<in> set (frows df1). \<forall>c \<in> set (fcolumns df). c \<notin> set known \<longrightarrow>
           (\<exists>n. x' c = VInt n \<and>
              ((\<exists>x \<in> set (frows df). (x c = VNull \<longrightarrow> n = 0) \<and> (\<forall>k. x c = VInt k \<longrightarrow> n = k)) \<or>
               ((dict_get pu_row c = VNull \<longrightarrow> n = 0) \<and> (\<forall>k. dict_get pu_row c = VInt k \<longrightarrow> n = k))))"
proof -
  let ?new = "\<lambda>col. if col \<in> set (fcolumns df) then
                          (if map_of pu_row col \<noteq> None then dict_get pu_row col
                           else if col \<in> set known then dict_get pu_row col
                           else VInt 0)
                        else VNull"
  let ?pcs = "filter (\<lambda>c. c \<notin> set known) (fcolumns df)"
  from assms have f: "fillna0_astype_int_cols ?pcs (df\<lparr>frows := frows df @ [?new]\<rparr>) = Inr df1"
    by (auto simp: add_polling_unit_to_df_def Let_def and_then_Inr_iff split: if_splits)
  from fillna0_astype_int_cols_rows [OF f] have cols: "fcolumns df1 = fcolumns df"
    and rel: "list_all2 (filled_cols ?pcs) (frows df @ [?new]) (frows df1)" by simp_all
  show "fcolumns df1 = fcolumns df" by (rule cols)
  show "\<forall>x' \<in> set (frows df1). \<forall>c \<in> set (fcolumns df). c \<notin> set known \<longrightarrow>
           (\<exists>n. x' c = VInt n \<and>
              ((\<exists>x \<in> set (frows df). (x c = VNull \<longrightarrow> n = 0) \<and> (\<forall>k. x c = VInt k \<longrightarrow> n = k)) \<or>
               ((dict_get pu_row c = VNull \<longrightarrow> n = 0) \<and> (\<forall>k. dict_get pu_row c = VInt k \<longrightarrow> n = k))))"
  proof (intro ballI impI)
    fix x' c assume x': "x' \<in> set (frows df1)" and c: "c \<in> set (fcolumns df)" and nk: "c \<notin> set known"
    from c nk have cp: "c \<in> set ?pcs" by simp
    from list_all2_rev_witness [OF rel x'] obtain x where x: "x \<in> set (frows df @ [?new])"
      and fl: "filled_cols ?pcs x x'" by blast
    from fl cp obtain n where n: "x' c = VInt n" and n0: "x c = VNull \<longrightarrow> n = 0"
      and k: "\<forall>k. x c = VInt k \<longrightarrow> n = k" by (auto simp: filled_cols_def)
    from x have "x \<in> set (frows df) \<or> x = ?new" by auto
    then show "\<exists>n. x' c = VInt n \<and>
              ((\<exists>x \<in> set (frows df). (x c = VNull \<longrightarrow> n = 0) \<and> (\<forall>k. x c = VInt k \<longrightarrow> n = k)) \<or>
               ((dict_get pu_row c = VNull \<longrightarrow> n = 0) \<and> (\<forall>k. dict_get pu_row c = VInt k \<longrightarrow> n = k)))"
    proof
      assume "x \<in> set (frows df)"
      with n n0 k show ?thesis by blast
    next
      assume xn: "x = ?new"
      show ?thesis
      proof (cases "map_of pu_row c")
        case None
        with xn c nk have "x c = VInt 0" by simp
        with k have "n = 0" by simp
        moreover from None have "dict_get pu_row c = VNull" by (simp add: dict_get_def)
        ultimately show ?thesis using n by auto
      next
        case (Some v)
        with xn c have "x c = dict_get pu_row c" by simp
        with n n0 k show ?thesis by auto
      qed
    qed
  qed
qed

lemma add_polling_unit_party_cells:
  assumes "add_polling_unit_to_df df pu_row = Inr df1"
  shows "party_cells (\<lambda>n. True) df1"
    and "party_cells (\<lambda>n. 0 \<le> n) df \<Longrightarrow>
         \<forall>c \<in> set (fcolumns df). c \<notin> set known \<longrightarrow>
           dict_get pu_row c = VNull \<or> (\<exists>k. dict_get pu_row c = VInt k \<and> 0 \<le> k) \<Longrightarrow>
         party_cells (\<lambda>n. 0 \<le> n) df1"
proof -
  note cols = add_polling_unit_rows(1) [OF assms]
  note rows = add_polling_unit_rows(2) [OF assms]
  have cell: "\<exists>n. x' c = VInt n \<and>
              ((\<exists>x \<in> set (frows df). (x c = VNull \<longrightarrow> n = 0) \<and> (\<forall>k. x c = VInt k \<longrightarrow> n = k)) \<or>
               ((dict_get pu_row c = VNull \<longrightarrow> n = 0) \<and> (\<forall>k. dict_get pu_row c = VInt k \<longrightarrow> n = k)))"
    if "x' \<in> set (frows df1)" "c \<in> set (fcolumns df)" "c \<notin> set known" for x' c
    using bspec [OF bspec [OF rows that(1)] that(2)] that(3) by (rule mp)
  show "party_cells (\<lambda>n. True) df1"
    unfolding party_cells_def cols
  proof (intro ballI impI)
    fix x' c assume "x' \<in> set (frows df1)" "c \<in> set (fcolumns df)" "c \<notin> set known"
    from cell [OF this] obtain n where "x' c = VInt n" by (elim exE conjE)
    then show "\<exists>n. x' c = VInt n \<and> True" by simp
  qed
  assume old: "party_cells (\<lambda>n. 0 \<le> n) df"
    and row: "\<forall>c \<in> set (fcolumns df). c \<notin> set known \<longrightarrow>
           dict_get pu_row c = VNull \<or> (\<exists>k. dict_get pu_row c = VInt k \<and> 0 \<le> k)"
  show "party_cells (\<lambda>n. 0 \<le> n) df1"
    unfolding party_cells_def cols
  proof (intro ballI impI)
    fix x' c assume x': "x' \<in> set (frows df1)" and c: "c \<in> set (fcolumns df)" and nk: "c \<notin> set known"
    from cell [OF x' c nk] obtain n where n: "x' c = VInt n"
      and src: "(\<exists>x \<in> set (frows df). (x c = VNull \<longrightarrow> n = 0) \<and> (\<forall>k. x c = VInt k \<longrightarrow> n = k)) \<or>
               ((dict_get pu_row c = VNull \<longrightarrow> n = 0) \<and> (\<forall>k. dict_get pu_row c = VInt k \<longrightarrow> n = k))"
      by (elim exE conjE)
    from src have "0 \<le> n"
    proof
      assume "\<exists>x \<in> set (frows df). (x c = VNull \<longrightarrow> n = 0) \<and> (\<forall>k. x c = VInt k \<longrightarrow> n = k)"
      then obtain x where x: "x \<in> set (frows df)" and k: "\<forall>k. x c = VInt k \<longrightarrow> n = k" by blast
      from old x c nk obtain m where "x c = VInt m" "0 \<le> m" unfolding party_cells_def by blast
      with k show ?thesis by simp
    next
      assume p: "(dict_get pu_row c = VNull \<longrightarrow> n = 0) \<and> (\<forall>k. dict_get pu_row c = VInt k \<longrightarrow> n = k)"
      from row c nk have "dict_get pu_row c = VNull \<or> (\<exists>k. dict_get pu_row c = VInt k \<and> 0 \<le> k)"
        by blast
      with p show ?thesis by auto
    qed
    with n show "\<exists>n. x' c = VInt n \<and> 0 \<le> n" by blast
  qed
qed

text \<open>
  C4, as stated. The claim says that every party column is non-negative for every dump
  and after every mutation. The assembler sums the scores as they are written: a dump
  whose only tally row gives party PDP the score -5 yields the cell -5. The mutation
  copies the value that the added row gives for a party column: -3 stays -3.
\<close>

theorem negative_score_counterexample:
  "(\<exists>df r. build_polling_unit_results_df negative_dump None = Inr df
       \<and> fcolumns df = [''polling_unit_uniqueid'', ''state_name'', ''PDP'']
       \<and> frows df = [r] \<and> r ''polling_unit_uniqueid'' = VInt 7 \<and> r ''PDP'' = VInt (- 5))
   \<and> (\<exists>df1 r s. add_polling_unit_to_df
          (DataFrame [[(''polling_unit_uniqueid'', VInt 7), (''PDP'', VInt 4)]])
          [(''polling_unit_uniqueid'', VInt 9), (''PDP'', VInt (- 3))] = Inr df1
       \<and> frows df1 = [r, s] \<and> s ''polling_unit_uniqueid'' = VInt 9 \<and> s ''PDP'' = VInt (- 3))"
proof -
  have "and_then (build_polling_unit_results_df negative_dump None)
     (\<lambda>df. Inr (fcolumns df, map (\<lambda>r. map r (fcolumns df)) (frows df)))
   = Inr ([''polling_unit_uniqueid'', ''state_name'', ''PDP''], [[VInt 7, VNull, VInt (- 5)]])"
    unfolding build_polling_unit_results_df_def negative_dump_tables negative_dump_mapping
    by (simp add: frame_eval assembler_eval)
  then obtain df where b: "build_polling_unit_results_df negative_dump None = Inr df"
    and cols: "fcolumns df = [''polling_unit_uniqueid'', ''state_name'', ''PDP'']"
    and cells: "map (\<lambda>r. map r (fcolumns df)) (frows df) = [[VInt 7, VNull, VInt (- 5)]]"
    by (auto simp: and_then_Inr_iff)
  from cells obtain r where rows: "frows df = [r]"
    and r: "r ''polling_unit_uniqueid'' = VInt 7" "r ''PDP'' = VInt (- 5)"
    unfolding cols by (auto simp: map_eq_Cons_conv)
  have 1: "\<exists>df r. build_polling_unit_results_df negative_dump None = Inr df
       \<and> fcolumns df = [''polling_unit_uniqueid'', ''state_name'', ''PDP'']
       \<and> frows df = [r] \<and> r ''polling_unit_uniqueid'' = VInt 7 \<and> r ''PDP'' = VInt (- 5)"
    using b cols rows r by blast
  have "and_then (add_polling_unit_to_df
          (DataFrame [[(''polling_unit_uniqueid'', VInt 7), (''PDP'', VInt 4)]])
          [(''polling_unit_uniqueid'', VInt 9), (''PDP'', VInt (- 3))])
     (\<lambda>df. Inr (map (\<lambda>r. map r [''polling_unit_uniqueid'', ''PDP'']) (frows df)))
   = Inr [[VInt 7, VInt 4], [VInt 9, VInt (- 3)]]"
    by (simp add: frame_eval assembler_eval)
  then obtain df1 where a: "add_polling_unit_to_df
          (DataFrame [[(''polling_unit_uniqueid'', VInt 7), (''PDP'', VInt 4)]])
          [(''polling_unit_uniqueid'', VInt 9), (''PDP'', VInt (- 3))] = Inr df1"
    and cells1: "map (\<lambda>r. map r [''polling_unit_uniqueid'', ''PDP'']) (frows df1)
                 = [[VInt 7, VInt 4], [VInt 9, VInt (- 3)]]"
    by (auto simp: and_then_Inr_iff)
  from cells1 obtain r1 s where "frows df1 = [r1, s]"
    "s ''polling_unit_uniqueid'' = VInt 9" "s ''PDP'' = VInt (- 3)"
    by (auto simp: map_eq_Cons_conv)
  with a have 2: "\<exists>df1 r s. add_polling_unit_to_df
          (DataFrame [[(''polling_unit_uniqueid'', VInt 7), (''PDP'', VInt 4)]])
          [(''polling_unit_uniqueid'', VInt 9), (''PDP'', VInt (- 3))] = Inr df1
       \<and> frows df1 = [r, s] \<and> s ''polling_unit_uniqueid'' = VInt 9 \<and> s ''PDP'' = VInt (- 3)"
    by blast
  from 1 2 show ?thesis by blast
qed

text \<open>
  C4, as amended. In every table that the assembler returns, and in every table that
  the mutation returns, every cell of every party column is an integer, never null. The
  cells of an assembled table are non-negative when every score of the extracted tally
  is non-negative; the mutation keeps the party cells non-negative when the added row
  gives, for each party column, nothing, null or a non-negative integer.
\<close>

theorem party_columns_are_integers:
  "(load_tables_from_sql sql_text
       [''polling_unit'', ''ward'', ''lga'', ''announced_pu_results''] = Inr tables
    \<and> build_polling_unit_results_df sql_text state_mapping = Inr df
    \<longrightarrow> party_cells (\<lambda>n. True) df
        \<and> ((\<forall>a \<in> set (frows (table_get tables ''announced_pu_results'')).
               0 \<le> int_val (a ''party_score''))
           \<longrightarrow> party_cells (\<lambda>n. 0 \<le> n) df))
   \<and> (add_polling_unit_to_df df0 pu_row = Inr df1
    \<longrightarrow> fcolumns df1 = fcolumns df0
        \<and> party_cells (\<lambda>n. True) df1
        \<and> (party_cells (\<lambda>n. 0 \<le> n) df0
           \<and> (\<forall>c \<in> set (fcolumns df0). c \<notin> set known \<longrightarrow>
                 dict_get pu_row c = VNull \<or> (\<exists>k. dict_get pu_row c = VInt k \<and> 0 \<le> k))
           \<longrightarrow> party_cells (\<lambda>n. 0 \<le> n) df1))"
proof -
  have 1: "party_cells (\<lambda>n. True) df
        \<and> ((\<forall>a \<in> set (frows (table_get tables ''announced_pu_results'')).
               0 \<le> int_val (a ''party_score''))
           \<longrightarrow> party_cells (\<lambda>n. 0 \<le> n) df)"
    if l: "load_tables_from_sql sql_text
       [''polling_unit'', ''ward'', ''lga'', ''announced_pu_results''] = Inr tables"
      and b: "build_polling_unit_results_df sql_text state_mapping = Inr df"
  proof -
    from l b have "assemble (table_get tables ''polling_unit'') (table_get tables ''ward'')
       (table_get tables ''lga'') (table_get tables ''announced_pu_results'')
       (case state_mapping of
          None \<Rightarrow> load_state_mapping sql_text None None
        | Some sm \<Rightarrow> Inr sm) = Inr df"
      by (simp add: build_assemble)
    from assemble_party_cells [OF this] show ?thesis by blast
  qed
  have 2: "fcolumns df1 = fcolumns df0
        \<and> party_cells (\<lambda>n. True) df1
        \<and> (party_cells (\<lambda>n. 0 \<le> n) df0
           \<and> (\<forall>c \<in> set (fcolumns df0). c \<notin> set known \<longrightarrow>
                 dict_get pu_row c = VNull \<or> (\<exists>k. dict_get pu_row c = VInt k \<and> 0 \<le> k))
           \<longrightarrow> party_cells (\<lambda>n. 0 \<le> n) df1)"
    if a: "add_polling_unit_to_df df0 pu_row = Inr df1"
    using add_polling_unit_rows(1) [OF a] add_polling_unit_party_cells [OF a] by blast
  from 1 2 show ?thesis by blast
qed

theorem party_columns_are_integers_witness:
  "\<exists>df x y df1 z.
      build_polling_unit_results_df sample_dump None = Inr df
      \<and> frows df = [x, y]
      \<and> (\<exists>n. x ''APC'' = VInt n \<and> 0 \<le> n) \<and> (\<exists>n. y ''PDP'' = VInt n \<and> 0 \<le> n)
      \<and> add_polling_unit_to_df df [(''polling_unit_uniqueid'', VInt 9)] = Inr df1
      \<and> fcolumns df1 = fcolumns df
      \<and> z \<in> set (frows df1) \<and> z ''polling_unit_uniqueid'' = VInt 9
      \<and> (\<exists>n. z ''APC'' = VInt n \<and> 0 \<le> n)"
proof -
  let ?ann = "table_get
       [(''polling_unit'', DataFrame [[(''uniqueid'', VInt 7)], [(''uniqueid'', VInt 8)]]),
          (''ward'', empty_frame), (''lga'', empty_frame),
          (''announced_pu_results'', DataFrame
             [[(''polling_unit_uniqueid'', VInt 7), (''party_abbreviation'', VStr ''APC''), (''party_score'', VInt 120)],
              [(''polling_unit_uniqueid'', VInt 7), (''party_abbreviation'', VStr ''APC''), (''party_score'', VInt 30)],
              [(''polling_unit_uniqueid'', VInt 7), (''party_abbreviation'', VStr ''PDP''), (''party_score'', VInt 4)]])]
       ''announced_pu_results''"
  have "and_then (build_polling_unit_results_df sample_dump None)
     (\<lambda>df. and_then (add_polling_unit_to_df df [(''polling_unit_uniqueid'', VInt 9)])
        (\<lambda>df1. Inr (fcolumns df, length (frows df),
                     map (\<lambda>r. r ''polling_unit_uniqueid'') (frows df1))))
   = Inr ([''polling_unit_uniqueid'', ''state_name'', ''APC'', ''PDP''], 2,
          [VInt 7, VInt 8, VInt 9])"
    unfolding build_polling_unit_results_df_def sample_dump_tables sample_dump_mapping
    by (simp add: frame_eval assembler_eval)
  then obtain df df1 where b: "build_polling_unit_results_df sample_dump None = Inr df"
    and a: "add_polling_unit_to_df df [(''polling_unit_uniqueid'', VInt 9)] = Inr df1"
    and cols: "fcolumns df = [''polling_unit_uniqueid'', ''state_name'', ''APC'', ''PDP'']"
    and len: "length (frows df) = 2"
    and ids: "map (\<lambda>r. r ''polling_unit_uniqueid'') (frows df1) = [VInt 7, VInt 8, VInt 9]"
    by (auto simp: and_then_Inr_iff)
  from len obtain x y where rows: "frows df = [x, y]"
    by (auto simp: length_Suc_conv numeral_2_eq_2)
  from ids obtain r1 r2 z where rows1: "frows df1 = [r1, r2, z]"
    and z9: "z ''polling_unit_uniqueid'' = VInt 9"
    by (auto simp: map_eq_Cons_conv)
  from rows1 z9 have z: "z \<in> set (frows df1)" "z ''polling_unit_uniqueid'' = VInt 9"
    by simp_all
  have nn: "\<forall>a \<in> set (frows ?ann). 0 \<le> int_val (a ''party_score'')"
    by (simp add: frame_eval)
  have row: "\<forall>c \<in> set (fcolumns df). c \<notin> set known \<longrightarrow>
       dict_get [(''polling_unit_uniqueid'', VInt 9)] c = VNull
       \<or> (\<exists>k. dict_get [(''polling_unit_uniqueid'', VInt 9)] c = VInt k \<and> 0 \<le> k)"
    by (simp add: cols known_def dict_get_def)
  from party_columns_are_integers [of sample_dump _ None df df "[(''polling_unit_uniqueid'', VInt 9)]" df1]
    sample_dump_tables b a nn row
  have pc: "party_cells (\<lambda>n. 0 \<le> n) df" and c1: "fcolumns df1 = fcolumns df"
    and pc1: "party_cells (\<lambda>n. 0 \<le> n) df1"
    by blast+
  have p: "''APC'' \<in> set (fcolumns df)" "''PDP'' \<in> set (fcolumns df)"
    "''APC'' \<notin> set known" "''PDP'' \<notin> set known"
    by (simp_all add: cols known_def)
  from pc p rows have "\<exists>n. x ''APC'' = VInt n \<and> 0 \<le> n" "\<exists>n. y ''PDP'' = VInt n \<and> 0 \<le> n"
    unfolding party_cells_def by auto
  moreover from pc1 p z have "\<exists>n. z ''APC'' = VInt n \<and> 0 \<le> n"
    unfolding party_cells_def c1 by blast
  ultimately show ?thesis using b rows a c1 z by blast
qed


end
